(* ===== verification/Prelude.thy ===== *)
theory Prelude
  imports Complex_Main "HOL-Library.Word" "HOL-Library.Log_Nat" "HOL-Library.Sublist"
begin

text \<open>
  Shared ground of the development: the names of Go's machine types, the byte order
  conversions of \<^verbatim>\<open>encoding/binary\<close>, decimal printing as \<^verbatim>\<open>strconv\<close> and \<^verbatim>\<open>fmt\<close> do it,
  results of fallible calls, and the collections of simplification rules the component
  theories fill and use.

  A Go \<^verbatim>\<open>string\<close> is a list of bytes; it is modelled by \<^typ>\<open>string\<close>, whose characters are
  exactly the 256 byte values. A call that returns \<^verbatim>\<open>(T, error)\<close> is a value of \<open>'e + 'a\<close>,
  with \<open>Inl\<close> for a non-nil error. A run-time panic is a value too (\<open>'a outcome\<close>).
\<close>

unbundle bit_operations_syntax

named_theorems codec_simps \<open>round trips and lengths of the byte and text encodings\<close>
named_theorems flow_simps \<open>unfoldings of the straight-line handlers\<close>

subsection \<open>Machine types\<close>

type_synonym byte = "8 word"
type_synonym uint32 = "32 word"
type_synonym uint64 = "64 word"
type_synonym int64 = "64 word"  \<comment> \<open>read with \<^const>\<open>sint\<close>; arithmetic wraps\<close>
type_synonym int32 = "32 word"  \<comment> \<open>read with \<^const>\<open>sint\<close>\<close>

definition int64_min :: int where "int64_min = - (2 ^ 63)"
definition int64_max :: int where "int64_max = 2 ^ 63 - 1"

definition fits_int64 :: "int \<Rightarrow> bool" where
  "fits_int64 n \<longleftrightarrow> int64_min \<le> n \<and> n \<le> int64_max"

lemma fits_int64_iff: "fits_int64 n \<longleftrightarrow> - 9223372036854775808 \<le> n \<and> n \<le> 9223372036854775807"
  by (simp add: fits_int64_def int64_min_def int64_max_def)

lemma sint_of_int64 [simp]:
  assumes "fits_int64 n"
  shows "sint (of_int n :: int64) = n"
proof -
  have "sint (of_int n :: int64) = signed_take_bit 63 n"
    by (simp add: sint_uint uint_word_of_int_eq signed_take_bit_take_bit)
  moreover have "signed_take_bit 63 n = n"
    using assms by (intro signed_take_bit_int_eq_self) (simp_all add: fits_int64_iff)
  ultimately show ?thesis by simp
qed

lemma fits_int64_sint [simp]: "fits_int64 (sint (w :: int64))"
  using sint_range_size [of w] by (simp add: fits_int64_iff word_size)

lemma uint_of_nonneg:
  assumes "0 \<le> sint (w :: int64)"
  shows "uint w = sint w"
proof -
  have "sint w < 2 ^ 64" using fits_int64_sint [of w] by (simp add: fits_int64_iff)
  then have "take_bit 64 (sint w) = sint w" using assms by (intro take_bit_int_eq_self) simp_all
  then show ?thesis by (simp add: uint_sint)
qed

lemma sint_add_int64:
  assumes "fits_int64 (sint a + sint (b :: int64))"
  shows "sint (a + b) = sint a + sint b"
proof -
  have "a + b = of_int (sint a + sint b)" by simp
  then show ?thesis using sint_of_int64 [OF assms] by (simp only:)
qed

subsection \<open>Sublists\<close>

lemma sublist_trans: "sublist xs ys \<Longrightarrow> sublist ys zs \<Longrightarrow> sublist xs zs"
  unfolding sublist_def by (metis append.assoc)

lemma set_mono_sublist: "sublist xs ys \<Longrightarrow> set xs \<subseteq> set ys"
  by (auto simp: sublist_def)

subsection \<open>Panics\<close>

text \<open>A call either returns, or panics (a nil dereference, an index out of range).\<close>

datatype 'a outcome = Returns 'a | Panics

subsection \<open>Big-endian byte order (\<^verbatim>\<open>encoding/binary\<close>)\<close>

definition PutUint32 :: "uint32 \<Rightarrow> byte list" where
  "PutUint32 v = [ucast (drop_bit 24 v), ucast (drop_bit 16 v), ucast (drop_bit 8 v), ucast v]"

text \<open>\<^verbatim>\<open>BigEndian.Uint32(b)\<close> panics when \<open>b\<close> has fewer than four bytes.\<close>

fun Uint32 :: "byte list \<Rightarrow> uint32 outcome" where
  "Uint32 (b0 # b1 # b2 # b3 # _) =
     Returns (ucast b3 OR push_bit 8 (ucast b2) OR push_bit 16 (ucast b1) OR push_bit 24 (ucast b0))"
| "Uint32 _ = Panics"

lemma length_PutUint32 [simp, codec_simps]: "length (PutUint32 v) = 4"
  by (simp add: PutUint32_def)

lemma Uint32_PutUint32 [simp, codec_simps]: "Uint32 (PutUint32 v) = Returns v"
proof -
  have "(ucast (ucast v :: byte) :: uint32)
        OR push_bit 8 (ucast (ucast (drop_bit 8 v) :: byte))
        OR push_bit 16 (ucast (ucast (drop_bit 16 v) :: byte))
        OR push_bit 24 (ucast (ucast (drop_bit 24 v) :: byte)) = v"
  proof (rule bit_word_eqI)
    fix n assume n: "n < LENGTH(32)"
    then consider "n < 8" | "8 \<le> n" "n < 16" | "16 \<le> n" "n < 24" | "24 \<le> n" "n < 32"
      by fastforce
    then show "bit ((ucast (ucast v :: byte) :: uint32)
        OR push_bit 8 (ucast (ucast (drop_bit 8 v) :: byte))
        OR push_bit 16 (ucast (ucast (drop_bit 16 v) :: byte))
        OR push_bit 24 (ucast (ucast (drop_bit 24 v) :: byte))) n = bit v n"
      by cases (auto simp: bit_simps)
  qed
  then show ?thesis by (simp add: PutUint32_def)
qed

lemma byte_bit_high [simp]: "8 \<le> n \<Longrightarrow> \<not> bit (b :: byte) n"
  by (auto dest: bit_imp_le_length)

lemma PutUint32_Uint32 [codec_simps]:
  "Uint32 [b0, b1, b2, b3] = Returns v \<Longrightarrow> PutUint32 v = [b0, b1, b2, b3]"
  by (auto simp: PutUint32_def bit_simps intro!: bit_word_eqI)

lemma PutUint32_inj [simp]: "PutUint32 v = PutUint32 w \<longleftrightarrow> v = w"
  by (metis Uint32_PutUint32 outcome.inject)

lemma PutUint32_surj:
  assumes "length bs = 4"
  obtains v where "PutUint32 v = bs"
proof -
  from assms obtain b0 b1 b2 b3 where "bs = [b0, b1, b2, b3]"
    by (auto simp: numeral_eq_Suc length_Suc_conv)
  then show ?thesis using that PutUint32_Uint32 by (metis Uint32.simps(1))
qed

subsection \<open>Decimal digits\<close>

definition is_digit :: "char \<Rightarrow> bool" where
  "is_digit c \<longleftrightarrow> 48 \<le> (of_char c :: nat) \<and> (of_char c :: nat) \<le> 57"

definition digit_val :: "char \<Rightarrow> nat" where
  "digit_val c = (of_char c :: nat) - 48"

definition digit_char :: "nat \<Rightarrow> char" where
  "digit_char d = char_of (48 + d)"

lemma of_char_digit_char [simp]: "d < 10 \<Longrightarrow> (of_char (digit_char d) :: nat) = 48 + d"
  by (simp add: digit_char_def)

lemma is_digit_digit_char [simp]: "d < 10 \<Longrightarrow> is_digit (digit_char d)"
  by (simp add: is_digit_def)

lemma digit_val_digit_char [simp]: "d < 10 \<Longrightarrow> digit_val (digit_char d) = d"
  by (simp add: digit_val_def)

lemma digit_val_less: "is_digit c \<Longrightarrow> digit_val c < 10"
  by (auto simp: is_digit_def digit_val_def)

lemma digit_char_eq_0 [simp]: "d < 10 \<Longrightarrow> digit_char d = CHR ''0'' \<longleftrightarrow> d = 0"
proof -
  assume d: "d < 10"
  have "digit_char d = CHR ''0'' \<longleftrightarrow> (of_char (digit_char d) :: nat) = of_char (CHR ''0'')"
    by (simp only: of_char_eq_iff)
  with d show ?thesis by simp
qed

lemma digit_char_digit_val [simp]: "is_digit c \<Longrightarrow> digit_char (digit_val c) = c"
  by (auto simp: is_digit_def digit_val_def digit_char_def)

text \<open>\<^verbatim>\<open>strconv.Itoa\<close> and \<^verbatim>\<open>%d\<close>: shortest decimal form, most significant digit first.\<close>

fun show_nat :: "nat \<Rightarrow> string" where
  "show_nat n = (if n < 10 then [digit_char n] else show_nat (n div 10) @ [digit_char (n mod 10)])"

declare show_nat.simps [simp del]

definition show_int :: "int \<Rightarrow> string" where
  "show_int n = (if n < 0 then CHR ''-'' # show_nat (nat (- n)) else show_nat (nat n))"

lemma show_nat_ne [simp]: "show_nat n \<noteq> []"
  by (subst show_nat.simps) simp

lemma show_int_ne [simp]: "show_int n \<noteq> []"
  by (simp add: show_int_def)

lemma show_nat_digits: "c \<in> set (show_nat n) \<Longrightarrow> is_digit c"
proof (induction n rule: show_nat.induct)
  case (1 n)
  then show ?case by (subst (asm) (2) show_nat.simps) (auto split: if_splits)
qed

text \<open>The value a list of digits denotes, most significant first, continuing from \<open>acc\<close>.\<close>

fun digits_val :: "nat \<Rightarrow> string \<Rightarrow> nat" where
  "digits_val acc [] = acc"
| "digits_val acc (c # cs) = digits_val (10 * acc + digit_val c) cs"

lemma digits_val_append [simp]: "digits_val acc (xs @ ys) = digits_val (digits_val acc xs) ys"
  by (induction xs arbitrary: acc) auto

lemma digits_val_show_nat [simp, codec_simps]: "digits_val 0 (show_nat n) = n"
proof (induction n rule: show_nat.induct)
  case (1 n)
  show ?case
  proof (cases "n < 10")
    case True
    then show ?thesis by (subst show_nat.simps) simp
  next
    case False
    with 1 have "digits_val 0 (show_nat (n div 10)) = n div 10" by simp
    with False show ?thesis by (subst show_nat.simps) simp
  qed
qed

lemma digits_val_mono: "acc \<le> digits_val acc cs"
proof (induction cs arbitrary: acc)
  case (Cons c cs)
  have "acc \<le> 10 * acc + digit_val c" by simp
  also have "\<dots> \<le> digits_val (10 * acc + digit_val c) cs" by (rule Cons)
  finally show ?case by simp
qed simp

lemma show_nat_inj [simp]: "show_nat m = show_nat n \<longleftrightarrow> m = n"
  by (metis digits_val_show_nat)

text \<open>No leading zero, except in the one-digit form of zero itself.\<close>

lemma show_nat_hd: "hd (show_nat n) = CHR ''0'' \<longleftrightarrow> n = 0"
proof (induction n rule: show_nat.induct)
  case (1 n)
  show ?case
  proof (cases "n < 10")
    case True
    then show ?thesis by (subst show_nat.simps) simp
  next
    case False
    with 1 have "hd (show_nat (n div 10)) = CHR ''0'' \<longleftrightarrow> n div 10 = 0" by simp
    with False show ?thesis by (subst show_nat.simps) auto
  qed
qed

lemma show_nat_snoc: "0 < v \<Longrightarrow> d < 10 \<Longrightarrow> show_nat (10 * v + d) = show_nat v @ [digit_char d]"
  by (simp add: show_nat.simps [of "10 * v + d"])

lemma show_nat_zero [simp]: "show_nat 0 = ''0''"
  by (subst show_nat.simps) simp

lemma length_show_nat: "n < 10 ^ Suc k \<Longrightarrow> length (show_nat n) \<le> Suc k"
proof (induction k arbitrary: n)
  case 0
  then show ?case by (subst show_nat.simps) simp
next
  case (Suc k)
  have "n div 10 < 10 ^ Suc k" using Suc.prems by (simp add: div_less_iff_less_mult)
  from Suc.IH [OF this] show ?case by (subst show_nat.simps) simp
qed

lemma length_show_int64:
  assumes "fits_int64 n"
  shows "length (show_int n) \<le> 21"
proof -
  have "nat \<bar>n\<bar> < 10 ^ Suc 19" using assms by (auto simp: fits_int64_iff nat_less_iff)
  then have "length (show_nat (nat \<bar>n\<bar>)) \<le> 20" using length_show_nat [of "nat \<bar>n\<bar>" 19] by simp
  then show ?thesis by (auto simp: show_int_def)
qed

end
