(* ===== verification/GoFloat.thy ===== *)
theory GoFloat
  imports Prelude
begin

text \<open>
  Go's \<^verbatim>\<open>float32\<close> and \<^verbatim>\<open>float64\<close> (IEEE 754 binary32 and binary64, round to nearest, ties to
  even), executable and exact. A finite float is the rational number it denotes; the two
  zeros are one value, since no operation of the program tells them apart (it compares,
  multiplies by non-zero constants, and truncates). The score arithmetic of the decision
  engine, the threshold conversion \<^verbatim>\<open>float32(cfg.ScoreBlockThreshold)\<close> and
  \<^verbatim>\<open>Duration.Seconds\<close> are computed with these operations.
\<close>

subsection \<open>Rounding a rational to a binary format\<close>

definition pow2 :: "int \<Rightarrow> rat" where
  "pow2 e = (if 0 \<le> e then 2 ^ nat e else 1 / 2 ^ nat (- e))"

text \<open>\<open>ilog2 x\<close> is the exponent of the binade of \<open>x > 0\<close>.\<close>

definition ilog2 :: "rat \<Rightarrow> int" where
  "ilog2 x =
     (let (n, d) = quotient_of x; k = bitlen n - bitlen d
      in if pow2 k \<le> x then k else k - 1)"

definition round_even :: "rat \<Rightarrow> int" where
  "round_even x =
     (let f = \<lfloor>x\<rfloor>; r = x - of_int f
      in if r < 1 / 2 then f else if 1 / 2 < r then f + 1
         else if even f then f else f + 1)"

text \<open>
  \<open>rnd p emin x\<close>: the multiple of the format's quantum nearest to \<open>x\<close>, for a format with \<open>p\<close>
  significant bits whose smallest positive value is \<open>2 ^ emin\<close>; overflow is dealt with below.
\<close>

definition quantum :: "int \<Rightarrow> int \<Rightarrow> rat \<Rightarrow> rat" where
  "quantum p emin x = pow2 (max (ilog2 \<bar>x\<bar> - (p - 1)) emin)"

definition rnd :: "int \<Rightarrow> int \<Rightarrow> rat \<Rightarrow> rat" where
  "rnd p emin x =
     (if x = 0 then 0
      else let q = quantum p emin x in of_int (round_even (x / q)) * q)"

lemma pow2_powi: "pow2 e = 2 powi e"
  by (simp add: pow2_def power_int_def inverse_eq_divide power_one_over)

lemma pow2_pos [simp]: "0 < pow2 e" and pow2_nonzero [simp]: "pow2 e \<noteq> 0"
  by (simp_all add: pow2_powi)

lemma pow2_add: "pow2 (a + b) = pow2 a * pow2 b"
  by (simp add: pow2_powi power_int_add)

lemma pow2_diff: "pow2 (a - b) = pow2 a / pow2 b"
  by (simp add: pow2_powi power_int_diff)

lemma pow2_le_iff [simp]: "pow2 a \<le> pow2 b \<longleftrightarrow> a \<le> b"
proof
  assume "pow2 a \<le> pow2 b"
  show "a \<le> b"
  proof (rule ccontr)
    assume "\<not> a \<le> b"
    then have "pow2 b < pow2 a"
      unfolding pow2_powi by (intro power_int_strict_increasing) auto
    with \<open>pow2 a \<le> pow2 b\<close> show False by simp
  qed
next
  assume "a \<le> b"
  then show "pow2 a \<le> pow2 b"
    unfolding pow2_powi by (intro power_int_increasing) auto
qed

lemma pow2_less_iff [simp]: "pow2 a < pow2 b \<longleftrightarrow> a < b"
  using pow2_le_iff [of b a] by linarith

lemma pow2_int: "0 \<le> e \<Longrightarrow> pow2 e = of_int (2 ^ nat e)"
  by (simp add: pow2_def)

text \<open>The binade of a positive rational is unique, and \<^const>\<open>ilog2\<close> finds it.\<close>

lemma pow2_binade_unique:
  assumes "pow2 k \<le> x" "x < pow2 (k + 1)" "pow2 l \<le> x" "x < pow2 (l + 1)"
  shows "k = l"
proof -
  have "pow2 k < pow2 (l + 1)" "pow2 l < pow2 (k + 1)" using assms by linarith+
  then show ?thesis by simp
qed

lemma bitlen_pow2:
  assumes "0 < n"
  shows "pow2 (bitlen n - 1) \<le> of_int n" "of_int n < pow2 (bitlen n)"
proof -
  have b: "0 < bitlen n" using assms bitlen_le_iff_power [of n 0] by (simp add: not_le [symmetric])
  have "2 ^ nat (bitlen n - 1) \<le> n \<and> n < 2 ^ nat (bitlen n)"
    using bitlen_bounds [OF assms] .
  moreover have "pow2 (bitlen n - 1) = of_int (2 ^ nat (bitlen n - 1))"
    and "pow2 (bitlen n) = of_int (2 ^ nat (bitlen n))"
    using b by (simp_all add: pow2_int)
  ultimately show "pow2 (bitlen n - 1) \<le> of_int n" "of_int n < pow2 (bitlen n)"
    by (simp_all only: of_int_le_iff of_int_less_iff)
qed

lemma ilog2_bounds:
  assumes "0 < x"
  shows "pow2 (ilog2 x) \<le> x" "x < pow2 (ilog2 x + 1)"
proof -
  obtain n d where q: "quotient_of x = (n, d)" by fastforce
  have d: "0 < d" using quotient_of_denom_pos [OF q] .
  have x: "x = of_int n / of_int d" using quotient_of_div [OF q] .
  have n: "0 < n" using assms d unfolding x by (simp add: zero_less_divide_iff)
  define k where "k = bitlen n - bitlen d"
  note bn = bitlen_pow2 [OF n] and bd = bitlen_pow2 [OF d]
  have "pow2 (k - 1) = pow2 (bitlen n - 1) / pow2 (bitlen d)"
    by (simp add: k_def pow2_diff [symmetric] algebra_simps)
  also have "\<dots> \<le> x" unfolding x
    using bn bd n d by (intro frac_le) (auto intro: less_imp_le)
  finally have lo: "pow2 (k - 1) \<le> x" .
  have "x < pow2 (bitlen n) / pow2 (bitlen d - 1)" unfolding x
    using bn bd n by (intro frac_less) (auto intro: less_imp_le)
  also have "\<dots> = pow2 (k + 1)"
    by (simp add: k_def pow2_diff [symmetric] algebra_simps)
  finally have hi: "x < pow2 (k + 1)" .
  have e: "ilog2 x = (if pow2 k \<le> x then k else k - 1)"
    by (simp add: ilog2_def q k_def)
  show "pow2 (ilog2 x) \<le> x" "x < pow2 (ilog2 x + 1)"
    using lo hi by (auto simp: e)
qed

lemma ilog2_mono:
  assumes "0 < x" "x \<le> y"
  shows "ilog2 x \<le> ilog2 y"
proof -
  have "pow2 (ilog2 x) < pow2 (ilog2 y + 1)"
    using assms ilog2_bounds(1) [of x] ilog2_bounds(2) [of y] by linarith
  then show ?thesis by simp
qed

subsection \<open>Nearest integer, ties to even\<close>

lemma round_even_of_int [simp]: "round_even (of_int n) = n"
  by (simp add: round_even_def)

lemma round_even_cases:
  "round_even x = \<lfloor>x\<rfloor> \<and> x - of_int \<lfloor>x\<rfloor> \<le> 1 / 2
   \<or> round_even x = \<lfloor>x\<rfloor> + 1 \<and> 1 / 2 \<le> x - of_int \<lfloor>x\<rfloor>"
  by (auto simp: round_even_def Let_def)

lemma round_even_ge: "of_int n \<le> x \<Longrightarrow> n \<le> round_even x"
  using round_even_cases [of x] by (auto simp: le_floor_iff [symmetric])

lemma round_even_le:
  assumes "x \<le> of_int n"
  shows "round_even x \<le> n"
proof (cases "x = of_int n")
  case False
  with assms have "x < of_int n" by simp
  then have "\<lfloor>x\<rfloor> < n" by (simp add: floor_less_iff)
  with round_even_cases [of x] show ?thesis by auto
qed simp

lemma round_even_mono:
  assumes "x \<le> y"
  shows "round_even x \<le> round_even y"
proof (cases "\<lfloor>x\<rfloor> = \<lfloor>y\<rfloor>")
  case True
  then have "x - of_int \<lfloor>x\<rfloor> \<le> y - of_int \<lfloor>y\<rfloor>" using assms by simp
  with True show ?thesis by (auto simp: round_even_def Let_def)
next
  case False
  with floor_mono [OF assms] have "\<lfloor>x\<rfloor> + 1 \<le> \<lfloor>y\<rfloor>" by linarith
  moreover have "round_even x \<le> \<lfloor>x\<rfloor> + 1" using round_even_cases [of x] by auto
  moreover have "\<lfloor>y\<rfloor> \<le> round_even y" using round_even_cases [of y] by auto
  ultimately show ?thesis by linarith
qed

lemma round_even_minus: "round_even (- x) = - round_even x"
proof (cases "x \<in> \<int>")
  case True
  then obtain n where "x = of_int n" by (elim Ints_cases)
  then have "- x = of_int (- n)" by simp
  then show ?thesis using \<open>x = of_int n\<close> by (simp only: round_even_of_int)
next
  case False
  then have fl: "\<lfloor>- x\<rfloor> = - \<lfloor>x\<rfloor> - 1"
    by (metis ceiling_altdef ceiling_def add.inverse_inverse diff_minus_eq_add
        minus_add_distrib uminus_add_conv_diff Ints_of_int)
  have "of_int \<lfloor>x\<rfloor> \<noteq> x" using False by (metis Ints_of_int)
  then show ?thesis by (auto simp: round_even_def Let_def fl)
qed

subsection \<open>Rounding to a format: exactness, symmetry, monotonicity\<close>

lemma quantum_pos [simp]: "0 < quantum p emin x" and quantum_nonzero [simp]: "quantum p emin x \<noteq> 0"
  by (simp_all add: quantum_def)

lemma quantum_minus [simp]: "quantum p emin (- x) = quantum p emin x"
  by (simp add: quantum_def)

lemma rnd_zero [simp]: "rnd p emin 0 = 0"
  by (simp add: rnd_def)

lemma rnd_nonzero: "x \<noteq> 0 \<Longrightarrow> rnd p emin x = of_int (round_even (x / quantum p emin x)) * quantum p emin x"
  by (simp add: rnd_def Let_def)

lemma rnd_minus: "rnd p emin (- x) = - rnd p emin x"
  by (cases "x = 0") (simp_all add: rnd_nonzero round_even_minus)

text \<open>A number with at most \<open>p\<close> significant bits, not below the smallest quantum, is kept.\<close>

lemma rnd_exact:
  assumes x: "x = of_int m * pow2 e" and m: "\<bar>m\<bar> < 2 ^ nat p" and e: "emin \<le> e" and p: "0 \<le> p"
  shows "rnd p emin x = x"
proof (cases "x = 0")
  case False
  define l where "l = max (ilog2 \<bar>x\<bar> - (p - 1)) emin"
  have "\<bar>x\<bar> < pow2 p * pow2 e"
  proof -
    have "of_int \<bar>m\<bar> < (of_int (2 ^ nat p) :: rat)" using m by (simp only: of_int_less_iff)
    then have "of_int \<bar>m\<bar> < pow2 p" using p by (simp add: pow2_int)
    then show ?thesis unfolding x abs_mult by (simp add: less_imp_le)
  qed
  then have "pow2 (ilog2 \<bar>x\<bar>) < pow2 (p + e)"
    using ilog2_bounds(1) [of "\<bar>x\<bar>"] False by (simp add: pow2_add)
  then have "l \<le> e" using e by (simp add: l_def)
  then have "x / pow2 l = of_int (m * 2 ^ nat (e - l))"
    using pow2_int [of "e - l"] by (simp add: x pow2_diff times_divide_eq_right [symmetric]
        del: times_divide_eq_right)
  then have r: "of_int (round_even (x / pow2 l)) = x / pow2 l"
    by (simp only: round_even_of_int)
  have q: "quantum p emin x = pow2 l" by (simp add: quantum_def l_def)
  show ?thesis using r by (simp add: rnd_nonzero [OF False] q)
qed simp

lemma rnd_of_int: "\<bar>n\<bar> < 2 ^ nat p \<Longrightarrow> emin \<le> 0 \<Longrightarrow> 0 \<le> p \<Longrightarrow> rnd p emin (of_int n) = of_int n"
  by (rule rnd_exact [of _ n 0]) (simp_all add: pow2_def)

text \<open>Rounding never crosses a multiple of the quantum.\<close>

lemma rnd_le_grid:
  assumes "x \<noteq> 0" "x \<le> of_int k * quantum p emin x"
  shows "rnd p emin x \<le> of_int k * quantum p emin x"
proof -
  have "round_even (x / quantum p emin x) \<le> k"
    using assms(2) by (intro round_even_le) (simp add: divide_le_eq)
  with assms(1) show ?thesis by (simp add: rnd_nonzero mult_right_mono less_imp_le)
qed

lemma rnd_ge_grid:
  assumes "x \<noteq> 0" "of_int k * quantum p emin x \<le> x"
  shows "of_int k * quantum p emin x \<le> rnd p emin x"
proof -
  have "k \<le> round_even (x / quantum p emin x)"
    using assms(2) by (intro round_even_ge) (simp add: le_divide_eq)
  with assms(1) show ?thesis by (simp add: rnd_nonzero mult_right_mono less_imp_le)
qed

lemma rnd_nonneg: "0 \<le> x \<Longrightarrow> 0 \<le> rnd p emin x"
  using rnd_ge_grid [of x 0] by (cases "x = 0") simp_all

lemma pow2_on_grid:
  assumes "k \<le> l"
  obtains m where "pow2 l = of_int m * pow2 k"
proof
  show "pow2 l = of_int (2 ^ nat (l - k)) * pow2 k"
    using assms pow2_int [of "l - k"] pow2_add [of "l - k" k] by simp
qed

text \<open>Across a binade the two roundings stay on their own side of the power of two between.\<close>

lemma rnd_mono_pos:
  assumes x: "0 < x" and xy: "x \<le> y" and p: "1 \<le> p"
  shows "rnd p emin x \<le> rnd p emin y"
proof -
  have y: "0 < y" using assms by simp
  define lx where "lx = max (ilog2 x - (p - 1)) emin"
  define l where "l = ilog2 y"
  define ly where "ly = max (l - (p - 1)) emin"
  have qx: "quantum p emin x = pow2 lx" and qy: "quantum p emin y = pow2 ly"
    using x y by (simp_all add: quantum_def lx_def ly_def l_def)
  show ?thesis
  proof (cases "lx = ly")
    case True
    have "x / pow2 ly \<le> y / pow2 ly" using xy by (simp add: divide_right_mono less_imp_le)
    then show ?thesis using x y qx qy True
      by (simp add: rnd_nonzero round_even_mono mult_right_mono less_imp_le)
  next
    case False
    have "ilog2 x \<le> l" using ilog2_mono [OF x xy] by (simp add: l_def)
    with False p have strict: "ilog2 x + 1 \<le> l" and l: "lx \<le> l" "ly \<le> l"
      by (auto simp: lx_def ly_def)
    have "x < pow2 (ilog2 x + 1)" by (rule ilog2_bounds(2) [OF x])
    also have "\<dots> \<le> pow2 l" using strict by simp
    finally have mid: "x \<le> pow2 l" "pow2 l \<le> y"
      using ilog2_bounds(1) [OF y] by (simp_all add: l_def)
    obtain m n where "pow2 l = of_int m * pow2 lx" "pow2 l = of_int n * pow2 ly"
      using pow2_on_grid l by metis
    then have "rnd p emin x \<le> pow2 l" "pow2 l \<le> rnd p emin y"
      using rnd_le_grid [of x m p emin] rnd_ge_grid [of y n p emin] mid x y qx qy by simp_all
    then show ?thesis by simp
  qed
qed

lemma rnd_mono:
  assumes "x \<le> y" "1 \<le> p"
  shows "rnd p emin x \<le> rnd p emin y"
proof -
  consider "0 < x" | "x \<le> 0" "0 \<le> y" | "y < 0" by linarith
  then show ?thesis
  proof cases
    case 1
    with assms show ?thesis by (intro rnd_mono_pos)
  next
    case 2
    then have "rnd p emin x \<le> 0" using rnd_nonneg [of "- x"] by (simp add: rnd_minus)
    also have "0 \<le> rnd p emin y" using 2 by (intro rnd_nonneg)
    finally show ?thesis .
  next
    case 3
    with assms have "rnd p emin (- y) \<le> rnd p emin (- x)" by (intro rnd_mono_pos) auto
    then show ?thesis by (simp add: rnd_minus)
  qed
qed

subsection \<open>Floating-point values and the operations the program uses\<close>

datatype gofloat = NaN | Inf bool | Fin rat  \<comment> \<open>\<open>Inf True\<close> is minus infinity\<close>

definition round_float :: "int \<Rightarrow> int \<Rightarrow> int \<Rightarrow> rat \<Rightarrow> gofloat" where
  "round_float p emin emax x =
     (let y = rnd p emin x in if pow2 emax \<le> \<bar>y\<bar> then Inf (y < 0) else Fin y)"

definition f32_of_rat :: "rat \<Rightarrow> gofloat" where
  "f32_of_rat = round_float 24 (- 149) 128"

definition f64_of_rat :: "rat \<Rightarrow> gofloat" where
  "f64_of_rat = round_float 53 (- 1074) 1024"

text \<open>The conversion \<^verbatim>\<open>float32(x)\<close> of a \<^verbatim>\<open>float64\<close>.\<close>

fun float32 :: "gofloat \<Rightarrow> gofloat" where
  "float32 NaN = NaN"
| "float32 (Inf s) = Inf s"
| "float32 (Fin x) = f32_of_rat x"

text \<open>\<^verbatim>\<open>a < b\<close>: false whenever an operand is not a number.\<close>

fun f_less :: "gofloat \<Rightarrow> gofloat \<Rightarrow> bool" where
  "f_less NaN b = False"
| "f_less a NaN = False"
| "f_less (Inf s) b = (s \<and> b \<noteq> Inf True)"
| "f_less (Fin x) (Inf s) = (\<not> s)"
| "f_less (Fin x) (Fin y) = (x < y)"

fun f_minus :: "gofloat \<Rightarrow> gofloat" where
  "f_minus NaN = NaN"
| "f_minus (Inf s) = Inf (\<not> s)"
| "f_minus (Fin x) = Fin (- x)"

definition f_gt :: "gofloat \<Rightarrow> gofloat \<Rightarrow> bool" where
  "f_gt a b = f_less b a"

definition f_le :: "gofloat \<Rightarrow> gofloat \<Rightarrow> bool" where
  "f_le a b \<longleftrightarrow> a \<noteq> NaN \<and> b \<noteq> NaN \<and> \<not> f_less b a"

definition f_neg :: "gofloat \<Rightarrow> bool" where
  "f_neg a = f_less a (Fin 0)"

text \<open>\<^verbatim>\<open>float32\<close> multiplication; an infinity times zero is not a number.\<close>

fun mul32 :: "gofloat \<Rightarrow> gofloat \<Rightarrow> gofloat" where
  "mul32 (Fin x) (Fin y) = f32_of_rat (x * y)"
| "mul32 NaN b = NaN"
| "mul32 a NaN = NaN"
| "mul32 a b =
     (if a = Fin 0 \<or> b = Fin 0 then NaN else Inf (f_neg a \<noteq> f_neg b))"

text \<open>\<^verbatim>\<open>float64\<close> addition and division.\<close>

fun add64 :: "gofloat \<Rightarrow> gofloat \<Rightarrow> gofloat" where
  "add64 (Fin x) (Fin y) = f64_of_rat (x + y)"
| "add64 NaN b = NaN"
| "add64 a NaN = NaN"
| "add64 (Inf s) (Inf t) = (if s = t then Inf s else NaN)"
| "add64 (Inf s) (Fin y) = Inf s"
| "add64 (Fin x) (Inf t) = Inf t"

definition f64_of_int :: "int \<Rightarrow> gofloat" where
  "f64_of_int n = f64_of_rat (of_int n)"

text \<open>
  \<^verbatim>\<open>int(f)\<close> and \<^verbatim>\<open>int64(f)\<close> discard the fraction. Where the value does not fit, the language
  leaves the result to the implementation, the parameter \<open>oob\<close>.
\<close>

definition trunc :: "rat \<Rightarrow> int" where
  "trunc x = (if x < 0 then - \<lfloor>- x\<rfloor> else \<lfloor>x\<rfloor>)"

fun int_of_float :: "(gofloat \<Rightarrow> int64) \<Rightarrow> gofloat \<Rightarrow> int" where
  "int_of_float oob (Fin x) = (if fits_int64 (trunc x) then trunc x else sint (oob (Fin x)))"
| "int_of_float oob f = sint (oob f)"

subsection \<open>Order and exactness of the operations\<close>

lemma f_less_irrefl [simp]: "\<not> f_less a a"
  by (cases a) auto

lemma f_gt_NaN [simp]: "\<not> f_gt NaN b" "\<not> f_gt a NaN"
  by (cases a; cases b; simp add: f_gt_def)+

lemma f_gt_trans: "f_gt a b \<Longrightarrow> f_gt b c \<Longrightarrow> f_gt a c"
  unfolding f_gt_def by (cases a; cases b; cases c) (auto split: if_splits)

lemma f_gt_Fin_0_iff: "f_gt (Fin 0) t \<longleftrightarrow> f_neg t"
  by (simp add: f_gt_def f_neg_def)

lemma round_float_small:
  assumes x: "\<bar>x\<bar> \<le> pow2 (emax - 1)" and p: "1 \<le> p" and e: "emin \<le> emax - 1"
  shows "round_float p emin emax x = Fin (rnd p emin x)"
proof -
  have top: "rnd p emin (pow2 (emax - 1)) = pow2 (emax - 1)"
  proof (rule rnd_exact [of _ 1 "emax - 1"])
    show "\<bar>1 :: int\<bar> < 2 ^ nat p" using p by (simp add: one_less_power)
  qed (use p e in auto)
  have "rnd p emin x \<le> pow2 (emax - 1)" "rnd p emin (- x) \<le> pow2 (emax - 1)"
    using x p rnd_mono [of x "pow2 (emax - 1)" p emin] rnd_mono [of "- x" "pow2 (emax - 1)" p emin] top
    by auto
  then have "\<bar>rnd p emin x\<bar> \<le> pow2 (emax - 1)" by (simp add: rnd_minus abs_le_iff)
  also have "\<dots> < pow2 emax" by simp
  finally show ?thesis by (simp add: round_float_def Let_def)
qed

lemma f32_of_rat_small: "\<bar>x\<bar> \<le> pow2 127 \<Longrightarrow> f32_of_rat x = Fin (rnd 24 (- 149) x)"
  by (simp add: f32_of_rat_def round_float_small)

lemma f64_of_rat_small: "\<bar>x\<bar> \<le> pow2 1023 \<Longrightarrow> f64_of_rat x = Fin (rnd 53 (- 1074) x)"
  by (simp add: f64_of_rat_def round_float_small)

lemma one_le_pow2: "0 \<le> e \<Longrightarrow> 1 \<le> pow2 e"
  by (simp add: pow2_def)

lemma f64_unit: "\<bar>x\<bar> \<le> 1 \<Longrightarrow> f64_of_rat x = Fin (rnd 53 (- 1074) x)"
  using one_le_pow2 [of 1023] by (intro f64_of_rat_small) simp

text \<open>Integers of at most 53 bits are represented exactly.\<close>

lemma f64_of_int_exact: "\<bar>n\<bar> < 2 ^ 53 \<Longrightarrow> f64_of_int n = Fin (of_int n)"
proof -
  assume n: "\<bar>n\<bar> < 2 ^ 53"
  then have "of_int \<bar>n\<bar> \<le> (of_int (2 ^ 53) :: rat)" by (simp only: of_int_le_iff)
  also have "\<dots> = pow2 53" by (simp add: pow2_def)
  also have "\<dots> \<le> pow2 1023" by (simp only: pow2_le_iff)
  finally have "\<bar>of_int n\<bar> \<le> pow2 1023" by simp
  then show ?thesis
    using n rnd_of_int [of n 53 "- 1074"] by (simp add: f64_of_int_def f64_of_rat_small)
qed

lemma add64_int:
  assumes "\<bar>a + b\<bar> < 2 ^ 53"
  shows "add64 (Fin (of_int a)) (Fin (of_int b)) = Fin (of_int (a + b))"
proof -
  have "add64 (Fin (of_int a)) (Fin (of_int b)) = f64_of_int (a + b)"
    by (simp add: f64_of_int_def)
  then show ?thesis using f64_of_int_exact [OF assms] by (simp only:)
qed

lemma trunc_of_int [simp]: "trunc (of_int n) = n"
  by (simp add: trunc_def)

lemma trunc_mono: "x \<le> y \<Longrightarrow> trunc x \<le> trunc y"
proof -
  assume xy: "x \<le> y"
  show ?thesis
  proof (cases "x < 0 \<and> 0 \<le> y")
    case True
    then have "0 \<le> \<lfloor>- x\<rfloor>" "0 \<le> \<lfloor>y\<rfloor>" by auto
    moreover have "trunc x = - \<lfloor>- x\<rfloor>" "trunc y = \<lfloor>y\<rfloor>" using True by (simp_all add: trunc_def)
    ultimately show ?thesis by linarith
  next
    case False
    with xy show ?thesis using floor_mono [OF xy] floor_mono [of "- y" "- x"] by (auto simp: trunc_def)
  qed
qed

subsection \<open>\<^verbatim>\<open>time.Duration.Seconds\<close>\<close>

text \<open>
  The method splits the nanoseconds into whole seconds and a remainder (both truncated
  towards zero) and adds them as \<^verbatim>\<open>float64\<close>.
\<close>

definition Seconds :: "int64 \<Rightarrow> gofloat" where
  "Seconds d =
     (let sec = trunc (of_int (sint d) / 1000000000); nsec = sint d - sec * 1000000000
      in add64 (f64_of_int sec) (f64_of_rat (of_int nsec / 1000000000)))"

lemma f64_of_rat_0 [simp]: "f64_of_rat 0 = Fin 0"
  using f64_of_int_exact [of 0] by (simp add: f64_of_int_def)

text \<open>A whole number of seconds survives the way through nanoseconds and floating point.\<close>

lemma Seconds_whole:
  assumes "sint d = n * 1000000000"
  shows "int_of_float oob (Seconds d) = n"
proof -
  have "fits_int64 (n * 1000000000)" using fits_int64_sint [of d] assms by simp
  then have n: "\<bar>n\<bar> < 2 ^ 53" and f: "fits_int64 n" by (auto simp: fits_int64_iff)
  have "of_int (sint d) / 1000000000 = (of_int n :: rat)" by (simp add: assms)
  then have "trunc (of_int (sint d) / 1000000000) = n" by (simp only: trunc_of_int)
  then have "Seconds d = f64_of_int n"
    using n by (simp add: Seconds_def assms f64_of_int_exact) (simp add: f64_of_int_def [symmetric] f64_of_int_exact)
  then show ?thesis using n f by (simp add: f64_of_int_exact)
qed


text \<open>A duration that is not positive gives no positive number of seconds, and none out of range.\<close>

lemma rnd_bounds:
  assumes "of_int a \<le> x" "x \<le> of_int b" "\<bar>a\<bar> < 2 ^ 53" "\<bar>b\<bar> < 2 ^ 53"
  shows "of_int a \<le> rnd 53 (- 1074) x" "rnd 53 (- 1074) x \<le> of_int b"
  using rnd_mono [OF assms(1), of 53 "- 1074"] rnd_mono [OF assms(2), of 53 "- 1074"] rnd_of_int [of a 53 "- 1074"] rnd_of_int [of b 53 "- 1074"] assms(3,4)
  by simp_all

lemma f64_between:
  assumes "of_int a \<le> x" "x \<le> of_int b" "\<bar>a\<bar> < 2 ^ 53" "\<bar>b\<bar> < 2 ^ 53"
  obtains y where "f64_of_rat x = Fin y" "of_int a \<le> y" "y \<le> of_int b"
proof -
  have "of_int (2 ^ 53) \<le> pow2 1023" using pow2_le_iff [of 53 1023] by (simp add: pow2_int)
  moreover have "- of_int (2 ^ 53) \<le> (of_int a :: rat)" "(of_int b :: rat) \<le> of_int (2 ^ 53)"
    using assms(3,4) unfolding of_int_minus [symmetric] of_int_le_iff by linarith+
  ultimately have "\<bar>x\<bar> \<le> pow2 1023" using assms(1,2) by linarith
  then show thesis using that f64_of_rat_small rnd_bounds [OF assms] by blast
qed

lemma trunc_nonpos: "x \<le> 0 \<Longrightarrow> trunc x \<le> 0 \<and> x \<le> of_int (trunc x) \<and> of_int (trunc x) < x + 1"
  using floor_correct [of "- x"] unfolding trunc_def by (cases "x = 0") (simp_all, linarith)

lemma Seconds_nonpos:
  assumes "sint d \<le> 0"
  shows "int_of_float oob (Seconds d) \<le> 0 \<and> \<bar>int_of_float oob (Seconds d)\<bar> < 2 ^ 53"
proof -
  define x where "x = (of_int (sint d) / 1000000000 :: rat)"
  have "- 9223372036854775808 \<le> sint d" using fits_int64_sint [of d] by (simp add: fits_int64_iff)
  with assms have d: "of_int (- 9223372036854775808) \<le> (of_int (sint d) :: rat)" "of_int (sint d) \<le> (of_int 0 :: rat)"
    unfolding of_int_le_iff by simp_all
  then have x: "x \<le> 0" "- 9223372037 \<le> x" by (simp_all add: x_def del: of_int_sint)
  define sec where "sec = trunc x"
  have sec: "sec \<le> 0" "- 9223372037 \<le> sec" "of_int (- 1) \<le> x - of_int sec" "x - of_int sec \<le> of_int 0"
    using trunc_nonpos [OF x(1)] x unfolding sec_def by linarith+
  obtain y where y: "f64_of_rat (x - of_int sec) = Fin y" "- 1 \<le> y" "y \<le> 0" by (rule f64_between [OF sec(3,4)]) auto
  obtain z where z: "f64_of_rat (of_int sec + y) = Fin z" "of_int (sec - 1) \<le> z" "z \<le> of_int 0"
    by (rule f64_between [of "sec - 1" "of_int sec + y" 0]) (use sec(1,2) y(2,3) in auto)
  have "of_int (sint d - sec * 1000000000) / 1000000000 = x - of_int sec" by (simp add: x_def field_simps del: of_int_sint)
  then have "Seconds d = add64 (f64_of_int sec) (f64_of_rat (x - of_int sec))"
    unfolding Seconds_def Let_def x_def [symmetric] sec_def [symmetric] by (simp only:)
  then have "Seconds d = Fin z" using y(1) z(1) sec(1,2) by (simp add: f64_of_int_exact)
  moreover have "sec - 1 \<le> trunc z" "trunc z \<le> 0" using trunc_mono [OF z(2)] trunc_mono [OF z(3)] by (simp_all only: trunc_of_int)
  ultimately show ?thesis using sec(2) by (simp add: fits_int64_iff)
qed

end
