(* ===== verification/GoStrings.thy ===== *)
theory GoStrings
  imports GoFloat
begin

text \<open>
  The string functions of Go's standard library the program calls: \<^verbatim>\<open>strings.Split\<close> on a
  one-byte separator, \<^verbatim>\<open>strings.TrimSpace\<close>, \<^verbatim>\<open>strconv.ParseInt(s, 10, 64)\<close> and
  \<^verbatim>\<open>strconv.ParseFloat(s, 64)\<close>, with the facts the configuration loader rests on.
\<close>

subsection \<open>\<^verbatim>\<open>strings.Split\<close> and \<^verbatim>\<open>strings.Join\<close>\<close>

text \<open>Split at every occurrence of the separator; the result is never empty.\<close>

fun Split :: "char \<Rightarrow> string \<Rightarrow> string list" where
  "Split sep [] = [[]]"
| "Split sep (c # cs) =
     (if c = sep then [] # Split sep cs
      else (case Split sep cs of [] \<Rightarrow> [[c]] | p # ps \<Rightarrow> (c # p) # ps))"

fun Join :: "char \<Rightarrow> string list \<Rightarrow> string" where
  "Join sep [] = []"
| "Join sep [p] = p"
| "Join sep (p # q # ps) = p @ sep # Join sep (q # ps)"

lemma Split_ne [simp]: "Split sep s \<noteq> []"
  by (cases s) (auto split: list.splits)

lemma Split_no_sep: "p \<in> set (Split sep s) \<Longrightarrow> sep \<notin> set p"
  by (induction s arbitrary: p) (fastforce split: if_splits list.splits)+

lemma Join_Split [simp, codec_simps]: "Join sep (Split sep s) = s"
proof (induction s)
  case (Cons c cs)
  obtain p ps where "Split sep cs = p # ps" by (meson Split_ne list.exhaust)
  with Cons show ?case by (cases ps) auto
qed simp

lemma Split_append: "sep \<notin> set p \<Longrightarrow> Split sep (p @ sep # s) = p # Split sep s"
  by (induction p) auto

lemma Split_single: "sep \<notin> set p \<Longrightarrow> Split sep p = [p]"
  by (induction p) auto

lemma Split_Join [codec_simps]:
  "ps \<noteq> [] \<Longrightarrow> \<forall>p \<in> set ps. sep \<notin> set p \<Longrightarrow> Split sep (Join sep ps) = ps"
  by (induction sep ps rule: Join.induct) (auto simp: Split_append Split_single)

lemma Split_hd_prefix: "Split sep s = p # ps \<Longrightarrow> prefix p s"
  using Join_Split [of sep s] by (cases ps) (auto simp: prefix_def)

lemma Split_sublist: "p \<in> set (Split sep s) \<Longrightarrow> sublist p s"
proof (induction s arbitrary: p)
  case (Cons c cs)
  obtain q qs where s: "Split sep cs = q # qs" by (meson Split_ne list.exhaust)
  have "prefix q cs" using s by (rule Split_hd_prefix)
  with Cons s show ?case by (auto simp: sublist_Cons_right split: if_splits)
qed simp

subsection \<open>\<^verbatim>\<open>strings.TrimSpace\<close>\<close>

text \<open>
  The UTF-8 encodings of the code points of \<^verbatim>\<open>unicode.IsSpace\<close>: the six ASCII spaces, U+0085,
  U+00A0, U+1680, U+2000 to U+200A, U+2028, U+2029, U+202F, U+205F and U+3000. UTF-8 is
  self-synchronising: a string starts (ends) with one of these runes when its bytes start
  (end) with the encoding.
\<close>

definition bytes_str :: "nat list \<Rightarrow> string" where
  "bytes_str = map char_of"

definition space_runes :: "string list" where
  "space_runes = map bytes_str
     ([[9], [10], [11], [12], [13], [32], [0xC2, 0x85], [0xC2, 0xA0], [0xE1, 0x9A, 0x80]]
      @ map (\<lambda>i. [0xE2, 0x80, 0x80 + i]) [0..<11]
      @ [[0xE2, 0x80, 0xA8], [0xE2, 0x80, 0xA9], [0xE2, 0x80, 0xAF], [0xE2, 0x81, 0x9F],
         [0xE3, 0x80, 0x80]])"

definition lead_space :: "string \<Rightarrow> string option" where
  "lead_space s = find (\<lambda>r. prefix r s) space_runes"

definition trail_space :: "string \<Rightarrow> string option" where
  "trail_space s = find (\<lambda>r. suffix r s) space_runes"

lemma space_runes_ne: "r \<in> set space_runes \<Longrightarrow> r \<noteq> []"
  unfolding space_runes_def by (auto simp: bytes_str_def)

function TrimLeftSpace :: "string \<Rightarrow> string" where
  "TrimLeftSpace s =
     (case lead_space s of None \<Rightarrow> s | Some r \<Rightarrow> TrimLeftSpace (drop (length r) s))"
  by pat_completeness auto
termination
proof (relation "measure length", goal_cases)
  case (2 s r)
  then have "r \<in> set space_runes" "prefix r s"
    by (auto simp: lead_space_def find_Some_iff)
  then show ?case using space_runes_ne [of r] by (cases s) auto
qed simp

function TrimRightSpace :: "string \<Rightarrow> string" where
  "TrimRightSpace s =
     (case trail_space s of None \<Rightarrow> s
      | Some r \<Rightarrow> TrimRightSpace (take (length s - length r) s))"
  by pat_completeness auto
termination
proof (relation "measure length", goal_cases)
  case (2 s r)
  then have "r \<in> set space_runes" "suffix r s"
    by (auto simp: trail_space_def find_Some_iff)
  then have "r \<noteq> []" "length r \<le> length s" by (simp_all add: space_runes_ne suffix_length_le)
  then show ?case by (cases r) auto
qed simp

declare TrimLeftSpace.simps [simp del] TrimRightSpace.simps [simp del]

definition TrimSpace :: "string \<Rightarrow> string" where
  "TrimSpace s = TrimRightSpace (TrimLeftSpace s)"

definition trimmed :: "string \<Rightarrow> bool" where
  "trimmed s \<longleftrightarrow> lead_space s = None \<and> trail_space s = None"

text \<open>A text that begins and ends with visible ASCII characters has nothing to trim.\<close>

definition visible :: "char \<Rightarrow> bool" where
  "visible c \<longleftrightarrow> 32 < (of_char c :: nat) \<and> (of_char c :: nat) < 127"

lemma space_runes_ends: "r \<in> set space_runes \<Longrightarrow> \<not> visible (hd r) \<and> \<not> visible (last r)"
  unfolding space_runes_def by (auto simp: bytes_str_def visible_def)

lemma trimmed_visible:
  assumes "s \<noteq> []" "visible (hd s)" "visible (last s)"
  shows "trimmed s"
proof -
  have "\<not> prefix r s \<and> \<not> suffix r s" if "r \<in> set space_runes" for r
    using that assms space_runes_ends [OF that] space_runes_ne [OF that]
    by (auto simp: prefix_def suffix_def)
  then show ?thesis by (auto simp: trimmed_def lead_space_def trail_space_def find_None_iff)
qed

lemma TrimRightSpace_prefix: "prefix (TrimRightSpace s) s"
proof (induction s rule: TrimRightSpace.induct)
  case (1 s)
  then show ?case
    by (subst TrimRightSpace.simps)
      (auto split: option.splits intro: prefix_order.trans take_is_prefix)
qed

lemma TrimLeftSpace_suffix: "suffix (TrimLeftSpace s) s"
proof (induction s rule: TrimLeftSpace.induct)
  case (1 s)
  then show ?case
    by (subst TrimLeftSpace.simps)
      (auto split: option.splits intro: suffix_order.trans suffix_drop)
qed

lemma TrimLeftSpace_lead: "lead_space (TrimLeftSpace s) = None"
proof (induction s rule: TrimLeftSpace.induct)
  case (1 s)
  then show ?case by (subst TrimLeftSpace.simps) (auto split: option.splits)
qed

lemma TrimRightSpace_trail: "trail_space (TrimRightSpace s) = None"
proof (induction s rule: TrimRightSpace.induct)
  case (1 s)
  then show ?case by (subst TrimRightSpace.simps) (auto split: option.splits)
qed

lemma lead_space_prefix_None: "lead_space s = None \<Longrightarrow> prefix t s \<Longrightarrow> lead_space t = None"
  by (auto simp: lead_space_def find_None_iff dest: prefix_order.trans)

lemma TrimSpace_trimmed: "trimmed (TrimSpace s)"
  unfolding trimmed_def TrimSpace_def
  using lead_space_prefix_None [OF TrimLeftSpace_lead TrimRightSpace_prefix] TrimRightSpace_trail
  by blast

lemma TrimSpace_id: "trimmed s \<Longrightarrow> TrimSpace s = s"
  unfolding trimmed_def TrimSpace_def
  by (simp add: TrimLeftSpace.simps TrimRightSpace.simps)

lemma TrimSpace_idem: "TrimSpace (TrimSpace s) = TrimSpace s"
  by (rule TrimSpace_id) (rule TrimSpace_trimmed)

lemma TrimSpace_sublist: "sublist (TrimSpace s) s"
  unfolding TrimSpace_def
  using TrimRightSpace_prefix [of "TrimLeftSpace s"] TrimLeftSpace_suffix [of s]
  by (blast intro: sublist_trans prefix_imp_sublist suffix_imp_sublist)

subsection \<open>\<^verbatim>\<open>strconv.ParseInt(s, 10, 64)\<close>\<close>

datatype num_error = ErrSyntax | ErrRange

fun parse_uint :: "nat \<Rightarrow> string \<Rightarrow> num_error + nat" where
  "parse_uint n [] = Inr n"
| "parse_uint n (c # cs) =
     (if \<not> is_digit c then Inl ErrSyntax
      else let n' = 10 * n + digit_val c
           in if 2 ^ 64 \<le> n' then Inl ErrRange else parse_uint n' cs)"

definition ParseUint :: "string \<Rightarrow> num_error + nat" where
  "ParseUint s = (if s = [] then Inl ErrSyntax else parse_uint 0 s)"

definition ParseInt :: "string \<Rightarrow> num_error + int" where
  "ParseInt s =
     (if s = [] then Inl ErrSyntax
      else let neg = hd s = CHR ''-'';
               t = (if hd s = CHR ''+'' \<or> neg then tl s else s)
           in case ParseUint t of
                Inl e \<Rightarrow> Inl e
              | Inr un \<Rightarrow>
                  if \<not> neg \<and> 2 ^ 63 \<le> un then Inl ErrRange
                  else if neg \<and> 2 ^ 63 < un then Inl ErrRange
                  else Inr (if neg then - int un else int un))"

lemma parse_uint_digits:
  assumes "\<And>c. c \<in> set cs \<Longrightarrow> is_digit c"
  shows "parse_uint n cs =
     (if cs = [] \<or> digits_val n cs < 2 ^ 64 then Inr (digits_val n cs) else Inl ErrRange)"
  using assms
proof (induction cs arbitrary: n)
  case (Cons c cs)
  show ?case
  proof (cases "10 * n + digit_val c < 2 ^ 64")
    case True
    with Cons show ?thesis by (auto simp: Let_def)
  next
    case False
    moreover have "10 * n + digit_val c \<le> digits_val (10 * n + digit_val c) cs"
      by (rule digits_val_mono)
    ultimately have "\<not> digits_val n (c # cs) < 2 ^ 64" by simp
    with False Cons.prems show ?thesis by (simp add: Let_def)
  qed
qed simp

lemma parse_uint_Inr: "parse_uint n cs = Inr m \<Longrightarrow> n < 2 ^ 64 \<Longrightarrow> m < 2 ^ 64"
  by (induction n cs rule: parse_uint.induct) (auto simp: Let_def split: if_splits)

lemma ParseUint_show_nat: "n < 2 ^ 64 \<Longrightarrow> ParseUint (show_nat n) = Inr n"
  by (simp add: ParseUint_def parse_uint_digits show_nat_digits)

lemma not_is_digit_sign [simp]: "\<not> is_digit CHR ''-''" "\<not> is_digit CHR ''+''"
  by (simp_all add: is_digit_def)

lemma show_nat_no_sign: "hd (show_nat n) \<noteq> CHR ''-''" "hd (show_nat n) \<noteq> CHR ''+''"
  using show_nat_digits [of "hd (show_nat n)" n] by auto

text \<open>Whatever parses is in range, and every in-range number parses from its decimal form.\<close>

lemma ParseInt_fits: "ParseInt s = Inr n \<Longrightarrow> fits_int64 n"
  by (auto simp: ParseInt_def Let_def fits_int64_iff split: if_splits sum.splits)

lemma ParseInt_show_int [codec_simps]: "fits_int64 n \<Longrightarrow> ParseInt (show_int n) = Inr n"
  using show_nat_no_sign [of "nat n"]
  by (auto simp: ParseInt_def show_int_def ParseUint_show_nat fits_int64_iff Let_def)

lemma ParseInt_out_of_range: "\<not> fits_int64 n \<Longrightarrow> ParseInt (show_int n) = Inl ErrRange"
  using show_nat_no_sign [of "nat n"] show_nat_digits
  by (auto simp: ParseInt_def ParseUint_def parse_uint_digits show_int_def fits_int64_iff Let_def)

subsection \<open>\<^verbatim>\<open>strconv.ParseFloat(s, 64)\<close>\<close>

definition lower :: "char \<Rightarrow> char" where
  "lower c = (if 65 \<le> (of_char c :: nat) \<and> (of_char c :: nat) \<le> 90
              then char_of ((of_char c :: nat) + 32) else c)"

definition digit_in :: "nat \<Rightarrow> char \<Rightarrow> nat option" where
  "digit_in base c =
     (if is_digit c then Some (digit_val c)
      else if base = 16 \<and> 97 \<le> (of_char (lower c) :: nat) \<and> (of_char (lower c) :: nat) \<le> 102
      then Some ((of_char (lower c) :: nat) - 87)
      else None)"

text \<open>
  The mantissa loop of \<^verbatim>\<open>readFloat\<close>: underscores are skipped (and remembered), one dot is taken,
  digits are accumulated in \<open>m\<close> and counted in \<open>fd\<close> once the dot has been seen.
\<close>

fun scan_mant :: "nat \<Rightarrow> bool \<Rightarrow> bool \<Rightarrow> bool \<Rightarrow> nat \<Rightarrow> nat \<Rightarrow> string \<Rightarrow>
    bool \<times> bool \<times> nat \<times> nat \<times> string" where
  "scan_mant base dot saw us m fd [] = (saw, us, m, fd, [])"
| "scan_mant base dot saw us m fd (c # cs) =
     (if c = CHR ''_'' then scan_mant base dot saw True m fd cs
      else if c = CHR ''.'' then
        (if dot then (saw, us, m, fd, c # cs) else scan_mant base True saw us m fd cs)
      else case digit_in base c of
             None \<Rightarrow> (saw, us, m, fd, c # cs)
           | Some d \<Rightarrow> scan_mant base dot True us (base * m + d) (if dot then Suc fd else fd) cs)"

text \<open>The exponent loop; the accumulator stops growing once it has reached 10000.\<close>

fun scan_exp :: "bool \<Rightarrow> nat \<Rightarrow> string \<Rightarrow> bool \<times> nat \<times> string" where
  "scan_exp us e [] = (us, e, [])"
| "scan_exp us e (c # cs) =
     (if c = CHR ''_'' then scan_exp True e cs
      else if is_digit c then scan_exp us (if e < 10000 then 10 * e + digit_val c else e) cs
      else (us, e, c # cs))"

datatype last_seen = SawStart | SawDigit | SawUnderscore | SawOther

fun underscore_loop :: "bool \<Rightarrow> last_seen \<Rightarrow> string \<Rightarrow> bool" where
  "underscore_loop hex saw [] = (saw \<noteq> SawUnderscore)"
| "underscore_loop hex saw (c # cs) =
     (if digit_in (if hex then 16 else 10) c \<noteq> None then underscore_loop hex SawDigit cs
      else if c = CHR ''_'' then saw = SawDigit \<and> underscore_loop hex SawUnderscore cs
      else saw \<noteq> SawUnderscore \<and> underscore_loop hex SawOther cs)"

definition underscoreOK :: "string \<Rightarrow> bool" where
  "underscoreOK s =
     (let t = (if s \<noteq> [] \<and> (hd s = CHR ''-'' \<or> hd s = CHR ''+'') then tl s else s)
      in case t of
           c0 # c1 # rest \<Rightarrow>
             if c0 = CHR ''0'' \<and> lower c1 \<in> {CHR ''b'', CHR ''o'', CHR ''x''}
             then underscore_loop (lower c1 = CHR ''x'') SawDigit rest
             else underscore_loop False SawStart t
         | _ \<Rightarrow> underscore_loop False SawStart t)"

definition hex_prefix :: "string \<Rightarrow> bool" where
  "hex_prefix t \<longleftrightarrow> 2 < length t \<and> t ! 0 = CHR ''0'' \<and> lower (t ! 1) = CHR ''x''"

text \<open>
  \<open>readFloat s\<close> is the exact value denoted by the whole of \<open>s\<close> (\<^verbatim>\<open>ParseFloat\<close> rejects a string
  with anything left over), or \<open>None\<close> when it is not a number.
\<close>

definition readFloat :: "string \<Rightarrow> rat option" where
  "readFloat s =
     (let neg = s \<noteq> [] \<and> hd s = CHR ''-'';
          t = (if s \<noteq> [] \<and> (hd s = CHR ''-'' \<or> hd s = CHR ''+'') then tl s else s);
          hex = hex_prefix t;
          base = (if hex then 16 else 10);
          (saw, us, m, fd, rest) =
             scan_mant base False False False 0 0 (if hex then drop 2 t else t);
          value = (\<lambda>us e. if us \<and> \<not> underscoreOK s then None
             else Some ((if neg then - 1 else 1) * of_nat m / of_nat base ^ fd
                        * (if hex then pow2 e else if 0 \<le> e then 10 ^ nat e else 1 / 10 ^ nat (- e))))
      in if \<not> saw then None
         else case rest of
           [] \<Rightarrow> if hex then None else value us 0
         | c # cs \<Rightarrow>
             if lower c \<noteq> (if hex then CHR ''p'' else CHR ''e'') then None
             else let eneg = cs \<noteq> [] \<and> hd cs = CHR ''-'';
                      ds = (if cs \<noteq> [] \<and> (hd cs = CHR ''-'' \<or> hd cs = CHR ''+'') then tl cs else cs)
                  in if ds = [] \<or> \<not> is_digit (hd ds) then None
                     else let (us', e, rest') = scan_exp us 0 ds
                          in if rest' = [] then value us' (if eneg then - int e else int e)
                             else None)"

definition special_float :: "string \<Rightarrow> gofloat option" where
  "special_float s =
     (let l = map lower s
      in if l \<in> {''inf'', ''infinity'', ''+inf'', ''+infinity''} then Some (Inf False)
         else if l \<in> {''-inf'', ''-infinity''} then Some (Inf True)
         else if l = ''nan'' then Some NaN else None)"

definition ParseFloat :: "string \<Rightarrow> num_error + gofloat" where
  "ParseFloat s =
     (case special_float s of
        Some f \<Rightarrow> Inr f
      | None \<Rightarrow>
          (case readFloat s of
             None \<Rightarrow> Inl ErrSyntax
           | Some x \<Rightarrow> (case f64_of_rat x of Fin y \<Rightarrow> Inr (Fin y) | _ \<Rightarrow> Inl ErrRange)))"

text \<open>Decimal integers are read exactly.\<close>

lemma scan_mant_digits:
  "(\<And>c. c \<in> set ds \<Longrightarrow> is_digit c) \<Longrightarrow>
   scan_mant 10 False saw us m 0 ds = (saw \<or> ds \<noteq> [], us, digits_val m ds, 0, [])"
proof (induction ds arbitrary: saw m)
  case (Cons c cs)
  have "is_digit c" using Cons.prems by simp
  then have "c \<noteq> CHR ''_''" "c \<noteq> CHR ''.''" "digit_in 10 c = Some (digit_val c)"
    by (auto simp: digit_in_def is_digit_def)
  with Cons show ?case by simp
qed simp

lemma readFloat_show_nat:
  "readFloat (show_nat n) = Some (of_nat n)" "readFloat (CHR ''-'' # show_nat n) = Some (- of_nat n)"
proof -
  have "lower (show_nat n ! 1) \<noteq> CHR ''x''" if "2 < length (show_nat n)"
    using that show_nat_digits [of "show_nat n ! 1" n] by (auto simp: lower_def is_digit_def)
  then have h: "\<not> hex_prefix (show_nat n)" by (auto simp: hex_prefix_def)
  have sc: "scan_mant 10 False False False 0 0 (show_nat n) = (True, False, n, 0, [])"
    using scan_mant_digits [of "show_nat n" False False 0] show_nat_digits by auto
  show "readFloat (show_nat n) = Some (of_nat n)"
    using h sc show_nat_no_sign [of n] by (simp add: readFloat_def Let_def)
  show "readFloat (CHR ''-'' # show_nat n) = Some (- of_nat n)"
    using h sc by (simp add: readFloat_def Let_def)
qed

lemma readFloat_show_int [codec_simps]: "readFloat (show_int n) = Some (of_int n)"
  by (simp add: show_int_def readFloat_show_nat of_nat_nat)

lemma ParseFloat_Fin_rounds:
  "ParseFloat s = Inr (Fin y) \<Longrightarrow> \<exists>x. readFloat s = Some x \<and> f64_of_rat x = Fin y"
  by (auto simp: ParseFloat_def special_float_def Let_def
      split: option.splits gofloat.splits if_splits)

end
