(* ===== verification/Config.thy ===== *)
theory Config
  imports GoStrings
begin

text \<open>
  \<^verbatim>\<open>internal/config/config.go\<close>: configuration from the environment. The process environment is
  a map from names to values; every integer is kept at its width, so the conversion of
  \<^verbatim>\<open>BUCKET_TTL_SECONDS\<close> to nanoseconds wraps as it does in Go.
\<close>

type_synonym env = "string \<rightharpoonup> string"

text \<open>\<^verbatim>\<open>os.Getenv\<close> does not tell an unset variable from an empty one.\<close>

definition Getenv :: "env \<Rightarrow> string \<Rightarrow> string" where
  "Getenv env key = (case env key of None \<Rightarrow> [] | Some v \<Rightarrow> v)"

definition getEnv :: "env \<Rightarrow> string \<Rightarrow> string \<Rightarrow> string" where
  "getEnv env key defaultVal =
     (let v = Getenv env key in if v \<noteq> [] then v else defaultVal)"

definition getEnvInt64 :: "env \<Rightarrow> string \<Rightarrow> int64 \<Rightarrow> int64" where
  "getEnvInt64 env key defaultVal =
     (let v = Getenv env key
      in if v \<noteq> []
         then (case ParseInt v of Inr n \<Rightarrow> of_int n | Inl _ \<Rightarrow> defaultVal)
         else defaultVal)"

definition getEnvFloat :: "env \<Rightarrow> string \<Rightarrow> gofloat \<Rightarrow> gofloat" where
  "getEnvFloat env key defaultVal =
     (let v = Getenv env key
      in if v \<noteq> []
         then (case ParseFloat v of Inr f \<Rightarrow> f | Inl _ \<Rightarrow> defaultVal)
         else defaultVal)"

text \<open>The loop of \<^verbatim>\<open>splitCSV\<close>, appending the trimmed non-empty parts to \<open>out\<close>.\<close>

fun splitCSV_loop :: "string list \<Rightarrow> string list \<Rightarrow> string list" where
  "splitCSV_loop out [] = out"
| "splitCSV_loop out (p # parts) =
     (let p' = TrimSpace p
      in splitCSV_loop (if p' \<noteq> [] then out @ [p'] else out) parts)"

definition splitCSV :: "string \<Rightarrow> string list" where
  "splitCSV s = splitCSV_loop [] (Split CHR '','' s)"

record Config =
  UnixSocketPath :: string
  HTTPPort :: string
  RedisAddrs :: "string list"
  BucketSize :: int64
  BucketTTL :: int64  \<comment> \<open>a \<^verbatim>\<open>time.Duration\<close>: nanoseconds\<close>
  KafkaBrokers :: "string list"
  MLSidecarAddr :: string
  ScoreBlockThreshold :: gofloat
  ScoreThrottleThreshold :: gofloat

definition Second :: int64 where "Second = 1000000000"

definition Load :: "env \<Rightarrow> Config" where
  "Load env =
     \<lparr> UnixSocketPath = getEnv env ''UNIX_SOCKET_PATH'' ''/tmp/decision.sock'',
       HTTPPort = getEnv env ''HTTP_PORT'' ''8080'',
       RedisAddrs = splitCSV (getEnv env ''REDIS_ADDRS'' ''localhost:6379''),
       BucketSize = getEnvInt64 env ''BUCKET_SIZE'' 100,
       BucketTTL = getEnvInt64 env ''BUCKET_TTL_SECONDS'' 60 * Second,
       KafkaBrokers = splitCSV (getEnv env ''KAFKA_BROKERS'' ''localhost:9092''),
       MLSidecarAddr = getEnv env ''ML_SIDECAR_ADDR'' ''localhost:50051'',
       ScoreBlockThreshold = getEnvFloat env ''SCORE_BLOCK_THRESHOLD'' (f64_of_rat (85 / 100)),
       ScoreThrottleThreshold = getEnvFloat env ''SCORE_THROTTLE_THRESHOLD'' (f64_of_rat (60 / 100)) \<rparr>"

subsection \<open>The list variables\<close>

lemma splitCSV_loop_eq: "splitCSV_loop out parts = out @ filter (\<lambda>p. p \<noteq> []) (map TrimSpace parts)"
  by (induction parts arbitrary: out) (auto simp: Let_def)

lemma splitCSV_eq: "splitCSV s = filter (\<lambda>p. p \<noteq> []) (map TrimSpace (Split CHR '','' s))"
  by (simp add: splitCSV_def splitCSV_loop_eq)

lemma splitCSV_wf:
  assumes "p \<in> set (splitCSV s)"
  shows "p \<noteq> [] \<and> trimmed p \<and> CHR '','' \<notin> set p \<and> sublist p s"
proof -
  obtain q where q: "q \<in> set (Split CHR '','' s)" "p = TrimSpace q" "p \<noteq> []"
    using assms by (auto simp: splitCSV_eq)
  have "sublist p s"
    using sublist_trans [OF TrimSpace_sublist Split_sublist [OF q(1)]] q(2) by simp
  moreover have "CHR '','' \<notin> set p"
    using q TrimSpace_sublist [of q] Split_no_sep [OF q(1)] set_mono_sublist by blast
  ultimately show ?thesis using q TrimSpace_trimmed by simp
qed

lemma splitCSV_Join:
  assumes "\<forall>p \<in> set ps. p \<noteq> [] \<and> trimmed p \<and> CHR '','' \<notin> set p"
  shows "splitCSV (Join CHR '','' ps) = ps"
proof (cases "ps = []")
  case True
  have "TrimSpace [] = []" by code_simp
  with True show ?thesis by (simp add: splitCSV_eq)
next
  case False
  with assms have "Split CHR '','' (Join CHR '','' ps) = ps" by (intro Split_Join) auto
  moreover have "map TrimSpace ps = ps" using assms by (intro map_idI) (auto simp: TrimSpace_id)
  ultimately show ?thesis using assms by (simp add: splitCSV_eq filter_id_conv)
qed

subsection \<open>The numeric variables\<close>

lemma getEnvInt64_show:
  "env key = Some (show_int n) \<Longrightarrow> fits_int64 n \<Longrightarrow> getEnvInt64 env key d = of_int n"
  by (simp add: getEnvInt64_def Getenv_def ParseInt_show_int)

lemma getEnvInt64_bad:
  "env key = Some v \<Longrightarrow> ParseInt v = Inl e \<Longrightarrow> getEnvInt64 env key d = d"
  by (simp add: getEnvInt64_def Getenv_def)

lemma getEnvInt64_unset: "Getenv env key = [] \<Longrightarrow> getEnvInt64 env key d = d"
  by (simp add: getEnvInt64_def)

lemma BucketTTL_nanoseconds:
  assumes "env ''BUCKET_TTL_SECONDS'' = Some (show_int n)" "\<bar>n\<bar> \<le> 9223372036"
  shows "sint (BucketTTL (Load env)) = n * 1000000000"
proof -
  have f: "fits_int64 n" "fits_int64 (n * 1000000000)" using assms(2) by (auto simp: fits_int64_iff)
  have "getEnvInt64 env ''BUCKET_TTL_SECONDS'' 60 = of_int n"
    using assms(1) f(1) by (rule getEnvInt64_show)
  then have "BucketTTL (Load env) = of_int (n * 1000000000)"
    by (simp add: Load_def Second_def)
  then show ?thesis using sint_of_int64 [OF f(2)] by (simp only:)
qed

text \<open>A number of seconds whose nanoseconds do not fit 64 bits wraps around: large settings become negative durations.\<close>

lemma BucketTTL_overflow:
  assumes "env ''BUCKET_TTL_SECONDS'' = Some (show_int n)" "9223372037 \<le> n" "n \<le> 18446744073"
  shows "sint (BucketTTL (Load env)) = n * 1000000000 - 2 ^ 64"
proof -
  have f: "fits_int64 n" "fits_int64 (n * 1000000000 - 2 ^ 64)" using assms(2,3) by (auto simp: fits_int64_iff)
  have "getEnvInt64 env ''BUCKET_TTL_SECONDS'' 60 = of_int n" using assms(1) f(1) by (rule getEnvInt64_show)
  then have "BucketTTL (Load env) = of_int (n * 1000000000 - 2 ^ 64)" by (simp add: Load_def Second_def)
  then show ?thesis using sint_of_int64 [OF f(2)] by (simp only:)
qed

subsection \<open>Properties\<close>

text \<open>
  A list of addresses written comma-separated into \<^verbatim>\<open>REDIS_ADDRS\<close> is the list the program uses,
  for addresses that are not empty, contain no comma and do not begin or end with white space.
\<close>

lemma address_list_round_trip:
  assumes "env ''REDIS_ADDRS'' = Some (Join CHR '','' ps)" "ps \<noteq> []"
    and "list_all (\<lambda>p. p \<noteq> [] \<and> trimmed p \<and> CHR '','' \<notin> set p) ps"
  shows "RedisAddrs (Load env) = ps"
proof -
  have ps: "\<forall>p \<in> set ps. p \<noteq> [] \<and> trimmed p \<and> CHR '','' \<notin> set p" using assms(3) by (simp add: list_all_iff)
  have csv: "splitCSV (Join CHR '','' ps) = ps" by (rule splitCSV_Join [OF ps])
  have "splitCSV [] = []" by code_simp
  with csv assms(2) have "Join CHR '','' ps \<noteq> []" by auto
  then have "getEnv env ''REDIS_ADDRS'' ''localhost:6379'' = Join CHR '','' ps"
    using assms(1) by (simp add: getEnv_def Getenv_def)
  with csv show ?thesis by (simp add: Load_def)
qed

end
