(* ===== verification/TokenBucket.thy ===== *)
theory TokenBucket
  imports GoStrings
begin

text \<open>
  \<^verbatim>\<open>internal/redis/client.go\<close>: the token bucket, a Lua script run atomically by Redis, and the
  Go client around it. Redis itself (its commands, and the conversions of the Lua
  interpreter it embeds) is a parameter: a record of functions on a server state \<open>'r\<close>. What the
  code relies on is the documented behaviour of those commands, collected in the locale
  \<open>healthy_redis\<close>; a reference server satisfies it.

  The client is proved to refine an abstract bucket: a counter and an expiry time per IP.
\<close>

subsection \<open>The Redis interface\<close>

datatype redis_err = RedisError string | LuaError

record 'r redis =
  EXISTS :: "'r \<Rightarrow> string \<Rightarrow> (redis_err + int) \<times> 'r"
  SET_EX :: "'r \<Rightarrow> string \<Rightarrow> string \<Rightarrow> string \<Rightarrow> (redis_err + unit) \<times> 'r"
  GET :: "'r \<Rightarrow> string \<Rightarrow> (redis_err + string option) \<times> 'r"
  DECRBY :: "'r \<Rightarrow> string \<Rightarrow> string \<Rightarrow> (redis_err + int) \<times> 'r"
  EXPIRE :: "'r \<Rightarrow> string \<Rightarrow> string \<Rightarrow> (redis_err + int) \<times> 'r"
  lua_tonumber :: "string \<Rightarrow> gofloat option"
  lua_tostring :: "gofloat \<Rightarrow> string"

subsection \<open>The script\<close>

text \<open>
  Lua numbers are \<^verbatim>\<open>float64\<close>. \<^verbatim>\<open>tonumber\<close> of something that is not a number is \<open>nil\<close>, on which
  arithmetic and comparison raise. An error raised by \<^verbatim>\<open>redis.call\<close> aborts the script; what
  it did before stays.
\<close>

definition lua_minus1 :: "gofloat \<Rightarrow> gofloat" where
  "lua_minus1 x = add64 x (Fin (- 1))"

definition tokenBucketScript ::
    "'r redis \<Rightarrow> string \<Rightarrow> string \<Rightarrow> string \<Rightarrow> 'r \<Rightarrow> (redis_err + gofloat) \<times> 'r" where
  "tokenBucketScript R key argv1 argv2 s0 =
     (let capacity = lua_tonumber R argv1; ttl = lua_tonumber R argv2
      in case EXISTS R s0 key of
        (Inl e, s1) \<Rightarrow> (Inl e, s1)
      | (Inr n, s1) \<Rightarrow>
          if n = 0 then
            (case (capacity, ttl) of
               (Some cap, Some t) \<Rightarrow>
                 (case SET_EX R s1 key (lua_tostring R (lua_minus1 cap)) (lua_tostring R t) of
                    (Inl e, s2) \<Rightarrow> (Inl e, s2)
                  | (Inr _, s2) \<Rightarrow> (Inr (lua_minus1 cap), s2))
             | _ \<Rightarrow> (Inl LuaError, s1))
          else
            (case GET R s1 key of
               (Inl e, s2) \<Rightarrow> (Inl e, s2)
             | (Inr v, s2) \<Rightarrow>
                 (case Option.bind v (lua_tonumber R) of
                    None \<Rightarrow> (Inl LuaError, s2)
                  | Some remaining \<Rightarrow>
                      if f_le remaining (Fin 0) then
                        (case ttl of
                           None \<Rightarrow> (Inl LuaError, s2)
                         | Some t \<Rightarrow>
                             (case EXPIRE R s2 key (lua_tostring R t) of
                                (Inl e, s3) \<Rightarrow> (Inl e, s3)
                              | (Inr _, s3) \<Rightarrow> (Inr (Fin (- 1)), s3)))
                      else
                        (case DECRBY R s2 key (lua_tostring R (Fin 1)) of
                           (Inl e, s3) \<Rightarrow> (Inl e, s3)
                         | (Inr _, s3) \<Rightarrow>
                             (case ttl of
                                None \<Rightarrow> (Inl LuaError, s3)
                              | Some t \<Rightarrow>
                                  (case EXPIRE R s3 key (lua_tostring R t) of
                                     (Inl e, s4) \<Rightarrow> (Inl e, s4)
                                   | (Inr _, s4) \<Rightarrow> (Inr (lua_minus1 remaining), s4)))))))"

subsection \<open>The Go client\<close>

record redis_Client =
  bucketSize :: int64
  bucketTTL :: int64  \<comment> \<open>nanoseconds\<close>

datatype redis_error = PingFailed string | ScriptFailed redis_err | TransportFailed string

record ClusterOptions =
  co_Addrs :: "string list"
  co_DialTimeout :: int  \<comment> \<open>nanoseconds, as the next two\<close>
  co_ReadTimeout :: int
  co_WriteTimeout :: int
  co_PoolSize :: nat
  co_MinIdleConns :: nat

text \<open>
  The connection pool is not part of the client's state here: \<open>ping\<close> is the outcome of
  \<^verbatim>\<open>rdb.Ping(ctx).Err()\<close> on a cluster client with these options, \<open>closeRdb\<close> that of \<^verbatim>\<open>rdb.Close()\<close>.
\<close>

definition redis_New :: "(ClusterOptions \<Rightarrow> string option) \<Rightarrow> string list \<Rightarrow> int64 \<Rightarrow> int64 \<Rightarrow> redis_error + redis_Client" where
  "redis_New ping addrs bsize ttl =
     (case ping \<lparr> co_Addrs = addrs, co_DialTimeout = 2 * 1000000000, co_ReadTimeout = 500 * 1000000,
                co_WriteTimeout = 500 * 1000000, co_PoolSize = 20, co_MinIdleConns = 5 \<rparr> of
        Some err \<Rightarrow> Inl (PingFailed err)
      | None \<Rightarrow> Inr \<lparr> bucketSize = bsize, bucketTTL = ttl \<rparr>)"

definition redis_Close :: "(redis_Client \<Rightarrow> string option) \<Rightarrow> redis_Client \<Rightarrow> string option" where
  "redis_Close closeRdb c = closeRdb c"

text \<open>
  A call can fail on the way to Redis, or after the script ran (a read timeout): the error
  the caller sees is the same, the server state is not.
\<close>

datatype transport = Delivered | RequestLost string | ReplyLost string

definition bucket_key :: "string \<Rightarrow> string" where
  "bucket_key ip = ''bucket:{'' @ ip @ ''}''"

text \<open>The second script argument, \<^verbatim>\<open>int64(c.bucketTTL.Seconds())\<close>.\<close>

definition ttl_arg :: "(gofloat \<Rightarrow> int64) \<Rightarrow> redis_Client \<Rightarrow> int" where
  "ttl_arg oob c = int_of_float oob (Seconds (bucketTTL c))"

text \<open>\<^verbatim>\<open>Decrement\<close> returns \<^verbatim>\<open>(remaining, err)\<close>; \<open>oob\<close> is the platform's float-to-integer overflow.\<close>

definition Decrement ::
    "'r redis \<Rightarrow> (gofloat \<Rightarrow> int64) \<Rightarrow> transport \<Rightarrow> redis_Client \<Rightarrow> string \<Rightarrow> 'r
     \<Rightarrow> (int \<times> redis_error option) \<times> 'r" where
  "Decrement R oob net c ip s =
     (case net of
        RequestLost e \<Rightarrow> ((0, Some (TransportFailed e)), s)
      | ReplyLost e \<Rightarrow>
          ((0, Some (TransportFailed e)),
           snd (tokenBucketScript R (bucket_key ip) (show_int (sint (bucketSize c)))
                  (show_int (ttl_arg oob c)) s))
      | Delivered \<Rightarrow>
          (case tokenBucketScript R (bucket_key ip) (show_int (sint (bucketSize c)))
                  (show_int (ttl_arg oob c)) s of
             (Inl e, s') \<Rightarrow> ((0, Some (ScriptFailed e)), s')
           | (Inr result, s') \<Rightarrow> ((int_of_float oob result, None), s')))"

subsection \<open>The abstract bucket\<close>

type_synonym bucket = "(int \<times> int) option"  \<comment> \<open>tokens left and expiry time, in milliseconds\<close>

text \<open>One request against a bucket of capacity \<open>cap\<close> with a time to live of \<open>ttl\<close> seconds.\<close>

fun spec_decrement :: "int \<Rightarrow> int \<Rightarrow> int \<Rightarrow> bucket \<Rightarrow> int \<times> bucket" where
  "spec_decrement cap ttl t None = (cap - 1, Some (cap - 1, t + 1000 * ttl))"
| "spec_decrement cap ttl t (Some (n, e)) =
     (if n \<le> 0 then (- 1, Some (n, t + 1000 * ttl)) else (n - 1, Some (n - 1, t + 1000 * ttl)))"

text \<open>Time passes: a bucket whose expiry has been reached is gone.\<close>

fun expire :: "int \<Rightarrow> bucket \<Rightarrow> bucket" where
  "expire t None = None"
| "expire t (Some (n, e)) = (if e \<le> t then None else Some (n, e))"

lemma bucket_key_inj [simp]: "bucket_key ip = bucket_key ip' \<longleftrightarrow> ip = ip'"
  by (simp add: bucket_key_def)

subsection \<open>Traffic\<close>

text \<open>
  Requests of many clients, interleaved, with time passing in between. \<open>replies\<close> runs them against
  a bucket service; \<open>spec_replies\<close> is what the abstract bucket of one IP answers.
\<close>

datatype event = Wait nat | Request string  \<comment> \<open>milliseconds; client IP\<close>

fun replies ::
    "(string \<Rightarrow> 's \<Rightarrow> (int \<times> 'e option) \<times> 's) \<Rightarrow> (nat \<Rightarrow> 's \<Rightarrow> 's) \<Rightarrow> 's \<Rightarrow> event list
     \<Rightarrow> (string \<times> int \<times> 'e option) list" where
  "replies dec wait s [] = []"
| "replies dec wait s (Wait d # es) = replies dec wait (wait d s) es"
| "replies dec wait s (Request ip # es) =
     (let (r, s') = dec ip s in (ip, r) # replies dec wait s' es)"

fun spec_replies :: "int \<Rightarrow> int \<Rightarrow> string \<Rightarrow> int \<Rightarrow> bucket \<Rightarrow> event list \<Rightarrow> int list" where
  "spec_replies cp ttl ip t b [] = []"
| "spec_replies cp ttl ip t b (Wait d # es) =
     spec_replies cp ttl ip (t + int d) (expire (t + int d) b) es"
| "spec_replies cp ttl ip t b (Request ip' # es) =
     (if ip' = ip
      then let (r, b') = spec_decrement cp ttl t b in r # spec_replies cp ttl ip t b' es
      else spec_replies cp ttl ip t b es)"

fun total_wait :: "event list \<Rightarrow> int" where
  "total_wait [] = 0"
| "total_wait (Wait d # es) = int d + total_wait es"
| "total_wait (Request ip # es) = total_wait es"

text \<open>
  \<open>steady pause ip g es\<close>: \<open>g\<close> milliseconds after its last request, the client \<open>ip\<close> goes on without ever
  pausing for \<open>pause\<close> milliseconds between two of its requests.
\<close>

fun steady :: "int \<Rightarrow> string \<Rightarrow> int \<Rightarrow> event list \<Rightarrow> bool" where
  "steady pause ip g [] = True"
| "steady pause ip g (Wait d # es) = steady pause ip (g + int d) es"
| "steady pause ip g (Request ip' # es) =
     (if ip' = ip then g < pause \<and> steady pause ip 0 es else steady pause ip g es)"

definition admitted :: "int list \<Rightarrow> nat" where
  "admitted rs = length (filter (\<lambda>r. 0 \<le> r) rs)"

lemma admitted_simps [simp]:
  "admitted [] = 0" "admitted (r # rs) = (if 0 \<le> r then Suc (admitted rs) else admitted rs)"
  by (simp_all add: admitted_def)

lemma total_wait_nonneg: "0 \<le> total_wait es"
  by (induction es rule: total_wait.induct) auto

text \<open>A bucket that outlives the traffic admits no more than the tokens it holds.\<close>

lemma admitted_live:
  "t + total_wait es < e \<Longrightarrow> total_wait es < 1000 * ttl \<Longrightarrow>
   admitted (spec_replies cp ttl ip t (Some (n, e)) es) \<le> nat n"
proof (induction es arbitrary: t n e)
  case (Cons ev es)
  show ?case
  proof (cases ev)
    case (Wait d)
    have "\<not> e \<le> t + int d" using Cons.prems(1) Wait total_wait_nonneg [of es] by simp
    then show ?thesis using Cons.IH [of "t + int d" e n] Cons.prems Wait by simp
  next
    case (Request ip')
    then show ?thesis
      using Cons.IH [of t e n] Cons.IH [of t "t + 1000 * ttl" n] Cons.IH [of t "t + 1000 * ttl" "n - 1"]
        Cons.prems by (cases "n \<le> 0") auto
  qed
qed simp

text \<open>In any stretch shorter than the time to live, at most \<open>cp\<close> requests are admitted.\<close>

lemma admitted_window:
  "total_wait es < 1000 * ttl \<Longrightarrow> (\<And>n e. b = Some (n, e) \<Longrightarrow> n \<le> cp - 1) \<Longrightarrow>
   admitted (spec_replies cp ttl ip t b es) \<le> nat cp"
proof (induction es arbitrary: t b)
  case (Cons ev es)
  show ?case
  proof (cases ev)
    case (Wait d)
    have "n \<le> cp - 1" if "expire (t + int d) b = Some (n, e)" for n e
      using that Cons.prems(2) by (cases b) (auto split: if_splits)
    then show ?thesis
      using Cons.IH [of "expire (t + int d) b" "t + int d"] Cons.prems(1) Wait by simp
  next
    case (Request ip')
    show ?thesis
    proof (cases "ip' = ip")
      case True
      note live = admitted_live [of t es "t + 1000 * ttl" ttl cp ip]
      show ?thesis
      proof (cases b)
        case None
        then show ?thesis using live [of "cp - 1"] Cons.prems(1) Request True by auto
      next
        case (Some p)
        then obtain n e where b: "b = Some (n, e)" "n \<le> cp - 1" using Cons.prems(2) by (cases p) auto
        show ?thesis using live [of n] live [of "n - 1"] Cons.prems(1) Request True b by auto
      qed
    next
      case False
      then show ?thesis using Cons.IH [of b t] Cons.prems Request by simp
    qed
  qed
qed simp

text \<open>A client past the limit sends nothing more, if its traffic is steady.\<close>

lemma steady_over: "steady pause ip g es \<Longrightarrow> pause \<le> g \<Longrightarrow> spec_replies cp ttl ip t b es = []"
  by (induction pause ip g es arbitrary: t b rule: steady.induct) (auto split: if_splits)

text \<open>
  Steady traffic sees one countdown and then refusals only: the bucket is never refilled,
  because every request moves its expiry.
\<close>

fun countdown :: "int \<Rightarrow> nat \<Rightarrow> int list" where
  "countdown n 0 = []"
| "countdown n (Suc k) = (if n \<le> 0 then - 1 # countdown n k else (n - 1) # countdown (n - 1) k)"

definition requests_of :: "string \<Rightarrow> event list \<Rightarrow> nat" where
  "requests_of ip es = length (filter (\<lambda>ev. ev = Request ip) es)"

lemma requests_of_simps [simp]:
  "requests_of ip [] = 0" "requests_of ip (Wait d # es) = requests_of ip es"
  "requests_of ip (Request ip' # es) = (if ip' = ip then Suc (requests_of ip es) else requests_of ip es)"
  by (simp_all add: requests_of_def)

lemma steady_over_requests: "steady pause ip g es \<Longrightarrow> pause \<le> g \<Longrightarrow> requests_of ip es = 0"
  by (induction pause ip g es rule: steady.induct) (auto split: if_splits)

lemma steady_countdown:
  "steady (1000 * ttl) ip g es \<Longrightarrow> g < 1000 * ttl \<Longrightarrow> 0 < ttl \<Longrightarrow>
   spec_replies cp ttl ip t (Some (n, t - g + 1000 * ttl)) es = countdown n (requests_of ip es)"
proof (induction es arbitrary: t g n)
  case (Cons ev es)
  show ?case
  proof (cases ev)
    case (Wait d)
    show ?thesis
    proof (cases "g + int d < 1000 * ttl")
      case True
      then show ?thesis using Cons.IH [of "g + int d" "t + int d" n] Cons.prems Wait by simp
    next
      case False
      then show ?thesis using Cons.prems Wait
        steady_over [of "1000 * ttl" ip "g + int d" es]
        steady_over_requests [of "1000 * ttl" ip "g + int d" es] by simp
    qed
  next
    case (Request ip')
    then show ?thesis using Cons.IH [of g t n] Cons.IH [of 0 t n] Cons.IH [of 0 t "n - 1"] Cons.prems
      by auto
  qed
qed simp

lemma admitted_countdown: "admitted (countdown n k) = min (nat n) k"
  by (induction n k rule: countdown.induct) auto

subsection \<open>What the client relies on\<close>

text \<open>
  \<open>entry s k\<close> is the live string value of key \<open>k\<close> and its expiry time, \<open>now s\<close> the server's clock
  in milliseconds, \<open>tick d s\<close> the server \<open>d\<close> milliseconds later. The laws are the documented
  behaviour of the five commands on string keys, for a server that accepts writes, and of
  the number conversions of its Lua interpreter on integers a double holds exactly.
\<close>

locale healthy_redis =
  fixes R :: "'r redis"
    and now :: "'r \<Rightarrow> int"
    and entry :: "'r \<Rightarrow> string \<Rightarrow> (string \<times> int option) option"
    and tick :: "nat \<Rightarrow> 'r \<Rightarrow> 'r"
  assumes exists_reply: "fst (EXISTS R s k) = Inr (if entry s k = None then 0 else 1)"
    and exists_frame: "entry (snd (EXISTS R s k)) = entry s" "now (snd (EXISTS R s k)) = now s"
    and get_reply: "fst (GET R s k) = Inr (map_option fst (entry s k))"
    and get_frame: "entry (snd (GET R s k)) = entry s" "now (snd (GET R s k)) = now s"
    and set_reply: "0 < t \<Longrightarrow> t \<le> 10 ^ 10 \<Longrightarrow> fst (SET_EX R s k v (show_int t)) = Inr ()"
    and set_entry: "0 < t \<Longrightarrow> t \<le> 10 ^ 10 \<Longrightarrow>
        entry (snd (SET_EX R s k v (show_int t))) = (entry s)(k \<mapsto> (v, Some (now s + 1000 * t)))"
    and set_bad: "t \<le> 0 \<Longrightarrow> \<exists>e. fst (SET_EX R s k v (show_int t)) = Inl e"
    and set_bad_frame: "t \<le> 0 \<Longrightarrow> entry (snd (SET_EX R s k v (show_int t))) = entry s"
    and set_now: "now (snd (SET_EX R s k v (show_int t))) = now s"
    and decrby_reply: "entry s k = Some (show_int n, e) \<Longrightarrow> fits_int64 n \<Longrightarrow> fits_int64 (n - 1) \<Longrightarrow>
        fst (DECRBY R s k ''1'') = Inr (n - 1)"
    and decrby_entry: "entry s k = Some (show_int n, e) \<Longrightarrow> fits_int64 n \<Longrightarrow> fits_int64 (n - 1) \<Longrightarrow>
        entry (snd (DECRBY R s k ''1'')) = (entry s)(k \<mapsto> (show_int (n - 1), e))"
    and decrby_now: "now (snd (DECRBY R s k ''1'')) = now s"
    and expire_reply: "entry s k = Some (v, e) \<Longrightarrow> 0 < t \<Longrightarrow> t \<le> 10 ^ 10 \<Longrightarrow>
        fst (EXPIRE R s k (show_int t)) = Inr 1"
    and expire_entry: "entry s k = Some (v, e) \<Longrightarrow> 0 < t \<Longrightarrow> t \<le> 10 ^ 10 \<Longrightarrow>
        entry (snd (EXPIRE R s k (show_int t))) = (entry s)(k \<mapsto> (v, Some (now s + 1000 * t)))"
    and expire_now: "now (snd (EXPIRE R s k (show_int t))) = now s"
    and tick_now: "now (tick d s) = now s + int d"
    and tick_entry: "entry (tick d s) k =
        (case entry s k of
           Some (v, Some e) \<Rightarrow> if e \<le> now s + int d then None else Some (v, Some e)
         | other \<Rightarrow> other)"
    and tonumber_int: "lua_tonumber R (show_int n) = Some (f64_of_int n)"
    and tostring_int: "\<bar>n\<bar> < 2 ^ 53 \<Longrightarrow> lua_tostring R (Fin (of_int n)) = show_int n"

text \<open>
  The client's settings: a capacity a double holds exactly, and a positive time to live (any
  \<^verbatim>\<open>time.Duration\<close> is below the upper bound). Buckets are as the script leaves them: a decimal
  number of tokens, between zero (one below the capacity, when that is negative) and
  \<open>cap - 1\<close>, with an expiry time.
\<close>

definition cap :: "redis_Client \<Rightarrow> int" where
  "cap c = sint (bucketSize c)"

definition wf_client :: "(gofloat \<Rightarrow> int64) \<Rightarrow> redis_Client \<Rightarrow> bool" where
  "wf_client oob c \<longleftrightarrow> \<bar>cap c\<bar> < 2 ^ 52 \<and> 0 < ttl_arg oob c \<and> ttl_arg oob c \<le> 10 ^ 10"

definition wf_tokens :: "int \<Rightarrow> int \<Rightarrow> bool" where
  "wf_tokens cp n \<longleftrightarrow> min 0 (cp - 1) \<le> n \<and> n \<le> cp - 1"

text \<open>What an entry of the store means as a bucket, and which entries are buckets.\<close>

definition bucket_of :: "(string \<times> int option) option \<Rightarrow> bucket" where
  "bucket_of x = (case x of
     Some (v, Some e) \<Rightarrow> (case ParseInt v of Inr n \<Rightarrow> Some (n, e) | Inl _ \<Rightarrow> None)
   | _ \<Rightarrow> None)"

definition bucket_ok :: "int \<Rightarrow> (string \<times> int option) option \<Rightarrow> bool" where
  "bucket_ok cp x \<longleftrightarrow> x = None \<or> (\<exists>n e. x = Some (show_int n, Some e) \<and> wf_tokens cp n)"

definition buckets_ok ::
    "('r \<Rightarrow> string \<Rightarrow> (string \<times> int option) option) \<Rightarrow> redis_Client \<Rightarrow> 'r \<Rightarrow> bool" where
  "buckets_ok entry c s \<longleftrightarrow> (\<forall>ip. bucket_ok (cap c) (entry s (bucket_key ip)))"

definition buckets ::
    "('r \<Rightarrow> string \<Rightarrow> (string \<times> int option) option) \<Rightarrow> 'r \<Rightarrow> string \<Rightarrow> bucket" where
  "buckets entry s ip = bucket_of (entry s (bucket_key ip))"

lemma wf_tokens_small:
  assumes "wf_client oob c" "wf_tokens (cap c) n"
  shows "\<bar>n\<bar> < 2 ^ 53" "\<bar>n - 1\<bar> < 2 ^ 53" "fits_int64 n" "fits_int64 (n - 1)"
  using assms by (auto simp: wf_client_def wf_tokens_def fits_int64_iff)

lemma lua_minus1_int: "\<bar>n\<bar> < 2 ^ 53 \<Longrightarrow> \<bar>n - 1\<bar> < 2 ^ 53 \<Longrightarrow> lua_minus1 (f64_of_int n) = Fin (of_int (n - 1))"
  using add64_int [of n "- 1"] by (simp add: lua_minus1_def f64_of_int_exact)

lemma show_int_1 [simp]: "show_int 1 = ''1''"
  by code_simp

context healthy_redis
begin

text \<open>The script on an absent key, on an exhausted bucket and on one with tokens.\<close>

lemma script_absent:
  assumes "entry s k = None" "\<bar>cp\<bar> < 2 ^ 53" "\<bar>cp - 1\<bar> < 2 ^ 53" "0 < t" "t \<le> 10 ^ 10"
  shows "\<exists>s'. tokenBucketScript R k (show_int cp) (show_int t) s = (Inr (Fin (of_int (cp - 1))), s')
      \<and> entry s' = (entry s)(k \<mapsto> (show_int (cp - 1), Some (now s + 1000 * t))) \<and> now s' = now s"
proof -
  obtain s1 where E: "EXISTS R s k = (Inr 0, s1)"
    and s1: "entry s1 = entry s" "now s1 = now s"
    using exists_reply [of s k] exists_frame [of s k] assms(1) by (cases "EXISTS R s k") auto
  have t: "f64_of_int t = Fin (of_int t)" "\<bar>t\<bar> < 2 ^ 53" using assms(4,5) by (auto intro: f64_of_int_exact)
  obtain s2 where S: "SET_EX R s1 k (show_int (cp - 1)) (show_int t) = (Inr (), s2)"
    and s2: "entry s2 = (entry s1)(k \<mapsto> (show_int (cp - 1), Some (now s1 + 1000 * t)))" "now s2 = now s1"
    using set_reply [OF assms(4,5)] set_entry [OF assms(4,5)] set_now
    by (metis prod.collapse)
  have "tokenBucketScript R k (show_int cp) (show_int t) s = (Inr (Fin (of_int (cp - 1))), s2)"
    using E S t lua_minus1_int [OF assms(2,3)] tostring_int [OF assms(3)] tostring_int [OF t(2)]
    by (simp add: tokenBucketScript_def tonumber_int)
  with s1 s2 show ?thesis by auto
qed

lemma script_exhausted:
  assumes "entry s k = Some (show_int n, e)" "n \<le> 0" "\<bar>n\<bar> < 2 ^ 53" "0 < t" "t \<le> 10 ^ 10"
  shows "\<exists>s'. tokenBucketScript R k (show_int cp) (show_int t) s = (Inr (Fin (- 1)), s')
      \<and> entry s' = (entry s)(k \<mapsto> (show_int n, Some (now s + 1000 * t))) \<and> now s' = now s"
proof -
  obtain s1 where E: "EXISTS R s k = (Inr 1, s1)" and s1: "entry s1 = entry s" "now s1 = now s"
    using exists_reply [of s k] exists_frame [of s k] assms(1) by (cases "EXISTS R s k") auto
  obtain s2 where G: "GET R s1 k = (Inr (Some (show_int n)), s2)" and s2: "entry s2 = entry s" "now s2 = now s"
    using get_reply [of s1 k] get_frame [of s1 k] assms(1) s1 by (cases "GET R s1 k") auto
  have t: "f64_of_int t = Fin (of_int t)" "\<bar>t\<bar> < 2 ^ 53" using assms(4,5) by (auto intro: f64_of_int_exact)
  obtain s3 where X: "EXPIRE R s2 k (show_int t) = (Inr 1, s3)"
    and s3: "entry s3 = (entry s2)(k \<mapsto> (show_int n, Some (now s2 + 1000 * t)))" "now s3 = now s2"
    using expire_reply [of s2 k "show_int n" e t] expire_entry [of s2 k "show_int n" e t] expire_now [of s2 k t]
      assms s2 by (cases "EXPIRE R s2 k (show_int t)") auto
  have "tokenBucketScript R k (show_int cp) (show_int t) s = (Inr (Fin (- 1)), s3)"
    using E G X t assms(2,3) tostring_int [OF t(2)]
    by (simp add: tokenBucketScript_def tonumber_int f64_of_int_exact f_le_def)
  with s2 s3 show ?thesis by auto
qed

lemma script_tokens:
  assumes "entry s k = Some (show_int n, e)" "0 < n" "n < 2 ^ 53" "0 < t" "t \<le> 10 ^ 10"
  shows "\<exists>s'. tokenBucketScript R k (show_int cp) (show_int t) s = (Inr (Fin (of_int (n - 1))), s')
      \<and> entry s' = (entry s)(k \<mapsto> (show_int (n - 1), Some (now s + 1000 * t))) \<and> now s' = now s"
proof -
  have n: "\<bar>n\<bar> < 2 ^ 53" "\<bar>n - 1\<bar> < 2 ^ 53" "fits_int64 n" "fits_int64 (n - 1)"
    using assms(2,3) by (auto simp: fits_int64_iff)
  obtain s1 where E: "EXISTS R s k = (Inr 1, s1)" and s1: "entry s1 = entry s" "now s1 = now s"
    using exists_reply [of s k] exists_frame [of s k] assms(1) by (cases "EXISTS R s k") auto
  obtain s2 where G: "GET R s1 k = (Inr (Some (show_int n)), s2)" and s2: "entry s2 = entry s" "now s2 = now s"
    using get_reply [of s1 k] get_frame [of s1 k] assms(1) s1 by (cases "GET R s1 k") auto
  obtain s3 where D: "DECRBY R s2 k ''1'' = (Inr (n - 1), s3)"
    and s3: "entry s3 = (entry s2)(k \<mapsto> (show_int (n - 1), e))" "now s3 = now s2"
    using decrby_reply [of s2 k n e] decrby_entry [of s2 k n e] decrby_now [of s2 k] assms(1) n s2
    by (cases "DECRBY R s2 k ''1''") auto
  have t: "f64_of_int t = Fin (of_int t)" "\<bar>t\<bar> < 2 ^ 53" using assms(4,5) by (auto intro: f64_of_int_exact)
  obtain s4 where X: "EXPIRE R s3 k (show_int t) = (Inr 1, s4)"
    and s4: "entry s4 = (entry s3)(k \<mapsto> (show_int (n - 1), Some (now s3 + 1000 * t)))" "now s4 = now s3"
    using expire_reply [of s3 k "show_int (n - 1)" e t] expire_entry [of s3 k "show_int (n - 1)" e t]
      expire_now [of s3 k t] assms(4,5) s3 by (cases "EXPIRE R s3 k (show_int t)") auto
  have "tokenBucketScript R k (show_int cp) (show_int t) s = (Inr (Fin (of_int (n - 1))), s4)"
    using E G D X t assms(2) lua_minus1_int [OF n(1,2)] tostring_int [OF t(2)] tostring_int [of 1] n(1)
    by (simp add: tokenBucketScript_def tonumber_int f64_of_int_exact f_le_def)
  with s2 s3 s4 show ?thesis by auto
qed

text \<open>A time to live that is not positive makes every write of a new bucket fail.\<close>

lemma script_bad_ttl:
  assumes "entry s k = None" "\<bar>cp\<bar> < 2 ^ 53" "\<bar>cp - 1\<bar> < 2 ^ 53" "t \<le> 0" "\<bar>t\<bar> < 2 ^ 53"
  shows "\<exists>e s'. tokenBucketScript R k (show_int cp) (show_int t) s = (Inl e, s') \<and> entry s' = entry s"
proof -
  obtain s1 where E: "EXISTS R s k = (Inr 0, s1)" and s1: "entry s1 = entry s"
    using exists_reply [of s k] exists_frame [of s k] assms(1) by (cases "EXISTS R s k") auto
  obtain e s2 where S: "SET_EX R s1 k (show_int (cp - 1)) (show_int t) = (Inl e, s2)" and s2: "entry s2 = entry s1"
    using set_bad [OF assms(4)] set_bad_frame [OF assms(4)] by (metis prod.collapse)
  have "tokenBucketScript R k (show_int cp) (show_int t) s = (Inl e, s2)"
    using E S lua_minus1_int [OF assms(2,3)] tostring_int [OF assms(3)] tostring_int [OF assms(5)] f64_of_int_exact [OF assms(5)]
    by (simp add: tokenBucketScript_def tonumber_int)
  with s1 s2 show ?thesis by auto
qed

lemma bad_ttl_never_refuses:
  assumes cp: "\<bar>cap c\<bar> < 2 ^ 52" and t: "ttl_arg oob c \<le> 0" "\<bar>ttl_arg oob c\<bar> < 2 ^ 53"
  shows "\<forall>ip. entry s (bucket_key ip) = None \<Longrightarrow>
     list_all (\<lambda>(ip, r, err). r = 0 \<and> err \<noteq> None) (replies (Decrement R oob Delivered c) tick s es)"
proof (induction es arbitrary: s)
  case (Cons ev es)
  show ?case
  proof (cases ev)
    case (Wait d)
    have "\<forall>ip. entry (tick d s) (bucket_key ip) = None" using Cons.prems by (simp add: tick_entry)
    then show ?thesis using Cons.IH Wait by simp
  next
    case (Request ip)
    have "\<bar>cap c\<bar> < 2 ^ 53" "\<bar>cap c - 1\<bar> < 2 ^ 53" using cp by auto
    from script_bad_ttl [OF Cons.prems [rule_format] this t, of ip] obtain e s' where
      "tokenBucketScript R (bucket_key ip) (show_int (cap c)) (show_int (ttl_arg oob c)) s = (Inl e, s')" "entry s' = entry s"
      by blast
    then have "Decrement R oob Delivered c ip s = ((0, Some (ScriptFailed e)), s')" "entry s' = entry s"
      by (simp_all add: Decrement_def cap_def)
    then show ?thesis using Cons.IH [of s'] Cons.prems Request by simp
  qed
qed simp

end

subsection \<open>The bucket service\<close>

text \<open>
  The contract the decision engine relies on: every call answers as the abstract bucket of
  that IP does and changes no other bucket.
\<close>

locale token_bucket =
  fixes decrement :: "string \<Rightarrow> 's \<Rightarrow> (int \<times> 'e option) \<times> 's"
    and wait :: "nat \<Rightarrow> 's \<Rightarrow> 's"
    and bucket :: "'s \<Rightarrow> string \<Rightarrow> bucket"
    and clock :: "'s \<Rightarrow> int"
    and ok :: "'s \<Rightarrow> bool"
    and cp ttl :: int
  assumes ttl_pos: "0 < ttl"
    and decrement_reply: "ok s \<Longrightarrow>
        fst (decrement ip s) = (fst (spec_decrement cp ttl (clock s) (bucket s ip)), None)"
    and decrement_bucket: "ok s \<Longrightarrow> bucket (snd (decrement ip s)) =
        (bucket s)(ip := snd (spec_decrement cp ttl (clock s) (bucket s ip)))"
    and decrement_clock: "ok s \<Longrightarrow> clock (snd (decrement ip s)) = clock s"
    and decrement_ok: "ok s \<Longrightarrow> ok (snd (decrement ip s))"
    and wait_bucket: "ok s \<Longrightarrow> bucket (wait d s) ip = expire (clock s + int d) (bucket s ip)"
    and wait_clock: "ok s \<Longrightarrow> clock (wait d s) = clock s + int d"
    and wait_ok: "ok s \<Longrightarrow> ok (wait d s)"
    and bucket_bound: "ok s \<Longrightarrow> bucket s ip = Some (n, e) \<Longrightarrow> n \<le> cp - 1"
begin

text \<open>The answers one client gets do not depend on the others.\<close>

lemma replies_spec:
  "ok s \<Longrightarrow>
   map snd (filter (\<lambda>(i, _). i = ip) (replies decrement wait s es)) =
   map (\<lambda>r. (r, None)) (spec_replies cp ttl ip (clock s) (bucket s ip) es)"
proof (induction es arbitrary: s)
  case (Cons ev es)
  show ?case
  proof (cases ev)
    case (Wait d)
    then show ?thesis using Cons.IH [of "wait d s"] Cons.prems
      by (simp add: wait_bucket wait_clock wait_ok)
  next
    case (Request ip')
    obtain r s' where d: "decrement ip' s = (r, s')" by fastforce
    have s': "ok s'" "clock s' = clock s"
      and r: "r = (fst (spec_decrement cp ttl (clock s) (bucket s ip')), None)"
      and b: "bucket s' = (bucket s)(ip' := snd (spec_decrement cp ttl (clock s) (bucket s ip')))"
      using d Cons.prems decrement_ok [of s ip'] decrement_clock [of s ip'] decrement_reply [of s ip']
        decrement_bucket [of s ip'] by auto
    show ?thesis using Cons.IH [OF s'(1)] s'(2) r b d Request by (auto simp: case_prod_beta Let_def)
  qed
qed simp

lemma replies_admitted:
  assumes "ok s"
  shows "length (filter (\<lambda>(i, r, _). i = ip \<and> 0 \<le> r) (replies decrement wait s es)) =
     admitted (spec_replies cp ttl ip (clock s) (bucket s ip) es)"
proof -
  let ?rs = "filter (\<lambda>(i, _). i = ip) (replies decrement wait s es)"
  have "length (filter (\<lambda>(i, r, _). i = ip \<and> 0 \<le> r) (replies decrement wait s es)) =
      length (filter (\<lambda>(i, r, _). 0 \<le> r) ?rs)"
    by (simp add: case_prod_unfold conj_commute)
  also have "\<dots> = length (filter (\<lambda>(r, _). 0 \<le> r) (map snd ?rs))"
    by (simp add: filter_map comp_def case_prod_beta)
  also have "\<dots> = admitted (spec_replies cp ttl ip (clock s) (bucket s ip) es)"
    unfolding replies_spec [OF assms(1)] by (simp add: admitted_def filter_map comp_def)
  finally show ?thesis .
qed

lemma replies_admitted_window:
  assumes "ok s" "total_wait es < 1000 * ttl"
  shows "length (filter (\<lambda>(i, r, _). i = ip \<and> 0 \<le> r) (replies decrement wait s es)) \<le> nat cp"
  unfolding replies_admitted [OF assms(1)] using assms by (intro admitted_window bucket_bound)

text \<open>A client that stays away for the time to live finds a full bucket.\<close>

lemma pause_full:
  assumes "ok s" "1000 * ttl \<le> int d"
  shows "fst (decrement ip (wait d (snd (decrement ip s)))) = (cp - 1, None)"
proof -
  let ?s = "snd (decrement ip s)"
  have s: "ok ?s" "clock ?s = clock s" by (simp_all add: assms decrement_ok decrement_clock)
  have "\<exists>n. snd (spec_decrement cp ttl (clock s) (bucket s ip)) = Some (n, clock s + 1000 * ttl)"
    by (cases "(cp, ttl, clock s, bucket s ip)" rule: spec_decrement.cases) auto
  then obtain n where "snd (spec_decrement cp ttl (clock s) (bucket s ip)) = Some (n, clock s + 1000 * ttl)" ..
  then have "bucket ?s ip = Some (n, clock s + 1000 * ttl)" by (simp add: decrement_bucket [OF assms(1)])
  then have "bucket (wait d ?s) ip = None" using assms(2) s by (simp add: wait_bucket)
  with s show ?thesis by (simp add: decrement_reply wait_ok)
qed

lemma spec_steady:
  assumes "bucket s ip = None" "steady (1000 * ttl) ip 0 es"
  shows "spec_replies cp ttl ip (clock s) (bucket s ip) (Request ip # es) =
     (cp - 1) # countdown (cp - 1) (requests_of ip es)"
  using assms(1) ttl_pos steady_countdown [OF assms(2), of "cp" "clock s" "cp - 1"] by simp

lemma replies_steady:
  assumes "ok s" "bucket s ip = None" "steady (1000 * ttl) ip 0 es"
  shows "map snd (filter (\<lambda>(i, _). i = ip) (replies decrement wait s (Request ip # es))) =
     map (\<lambda>r. (r, None)) ((cp - 1) # countdown (cp - 1) (requests_of ip es))
   \<and> length (filter (\<lambda>(i, r, _). i = ip \<and> 0 \<le> r) (replies decrement wait s (Request ip # es))) =
     min (nat cp) (Suc (requests_of ip es))"
  unfolding replies_spec [OF assms(1)] replies_admitted [OF assms(1)] spec_steady [OF assms(2,3)]
  by (auto simp: admitted_countdown)

end

subsection \<open>The client over Redis is a bucket service\<close>

lemma bucket_of_show [simp]: "fits_int64 n \<Longrightarrow> bucket_of (Some (show_int n, Some e)) = Some (n, e)"
  by (simp add: bucket_of_def ParseInt_show_int)

lemma bucket_of_None [simp]: "bucket_of None = None"
  by (simp add: bucket_of_def)

locale bucket_client = healthy_redis R now entry tick
  for R :: "'r redis" and now entry tick +
  fixes oob :: "gofloat \<Rightarrow> int64" and c :: redis_Client
  assumes wf: "wf_client oob c"
begin

text \<open>One script run is one step of the abstract bucket, and writes only its own key.\<close>

lemma script_step:
  assumes ok: "bucket_ok (cap c) (entry s (bucket_key ip))"
  defines "b \<equiv> buckets entry s ip"
  shows "\<exists>s' n' e'. Decrement R oob Delivered c ip s =
        ((fst (spec_decrement (cap c) (ttl_arg oob c) (now s) b), None), s')
      \<and> snd (spec_decrement (cap c) (ttl_arg oob c) (now s) b) = Some (n', e')
      \<and> wf_tokens (cap c) n'
      \<and> entry s' = (entry s)(bucket_key ip \<mapsto> (show_int n', Some e')) \<and> now s' = now s"
proof -
  have t: "0 < ttl_arg oob c" "ttl_arg oob c \<le> 10 ^ 10" and cp: "\<bar>cap c\<bar> < 2 ^ 53" "\<bar>cap c - 1\<bar> < 2 ^ 53"
    using wf by (auto simp: wf_client_def)
  let ?k = "bucket_key ip" and ?t = "ttl_arg oob c"
  show ?thesis
  proof (cases "entry s ?k")
    case None
    have "fits_int64 (cap c - 1)" using cp by (auto simp: fits_int64_iff)
    moreover have "b = None" using None by (simp add: b_def buckets_def)
    ultimately show ?thesis using script_absent [OF None cp t]
      by (auto simp: Decrement_def cap_def wf_tokens_def simp del: of_int_diff)
  next
    case (Some x)
    then obtain n e where x: "entry s ?k = Some (show_int n, Some e)" and n: "wf_tokens (cap c) n"
      using ok by (auto simp: bucket_ok_def)
    note sm = wf_tokens_small [OF wf n]
    have b: "b = Some (n, e)" using x sm(3) by (simp add: b_def buckets_def)
    show ?thesis
    proof (cases "n \<le> 0")
      case True
      then show ?thesis using script_exhausted [OF x True sm(1) t, of "cap c"] n b
        by (auto simp: Decrement_def cap_def trunc_def fits_int64_iff)
    next
      case False
      then have "0 < n" "n < 2 ^ 53" using sm(1) by auto
      then show ?thesis using script_tokens [OF x _ _ t, of "cap c"] n b sm(4) False
        by (auto simp: Decrement_def cap_def wf_tokens_def simp del: of_int_diff)
    qed
  qed
qed

lemma ok_bucket:
  assumes "buckets_ok entry c s" "buckets entry s ip = Some (n, e)"
  shows "wf_tokens (cap c) n"
proof -
  from assms(1) have "bucket_ok (cap c) (entry s (bucket_key ip))" by (simp add: buckets_ok_def)
  then obtain m e' where m: "entry s (bucket_key ip) = Some (show_int m, Some e')" "wf_tokens (cap c) m"
    using assms(2) by (auto simp: bucket_ok_def buckets_def)
  with assms(2) wf_tokens_small(3) [OF wf m(2)] show ?thesis by (simp add: buckets_def)
qed

lemma bucket_ok_tick:
  "bucket_ok cp (entry s k) \<Longrightarrow> bucket_ok cp (entry (tick d s) k)"
  unfolding bucket_ok_def tick_entry by (auto split: if_splits)

lemma bucket_of_tick:
  assumes "bucket_ok (cap c) (entry s k)"
  shows "bucket_of (entry (tick d s) k) = expire (now s + int d) (bucket_of (entry s k))"
proof -
  consider "entry s k = None"
    | n e where "entry s k = Some (show_int n, Some e)" "fits_int64 n"
    using assms wf_tokens_small(3) [OF wf] by (auto simp: bucket_ok_def)
  then show ?thesis by cases (auto simp: tick_entry)
qed

end

sublocale bucket_client \<subseteq> svc: token_bucket "Decrement R oob Delivered c" tick "buckets entry" now
  "buckets_ok entry c" "cap c" "ttl_arg oob c"
proof (unfold_locales, goal_cases)
  case 1
  show ?case using wf by (simp add: wf_client_def)
next
  case (2 s ip)
  then show ?case using script_step [of s ip] by (auto simp: buckets_ok_def)
next
  case (3 s ip)
  then obtain s' n' e' where "Decrement R oob Delivered c ip s =
        ((fst (spec_decrement (cap c) (ttl_arg oob c) (now s) (buckets entry s ip)), None), s')"
    "snd (spec_decrement (cap c) (ttl_arg oob c) (now s) (buckets entry s ip)) = Some (n', e')"
    "wf_tokens (cap c) n'" "entry s' = (entry s)(bucket_key ip \<mapsto> (show_int n', Some e'))"
    using script_step [of s ip] by (auto simp: buckets_ok_def)
  then show ?case using wf_tokens_small(3) [OF wf] by (auto simp: buckets_def fun_eq_iff)
next
  case (4 s ip)
  then show ?case using script_step [of s ip] by (auto simp: buckets_ok_def)
next
  case (5 s ip)
  then obtain s' n' e' where "snd (Decrement R oob Delivered c ip s) = s'"
    "wf_tokens (cap c) n'" "entry s' = (entry s)(bucket_key ip \<mapsto> (show_int n', Some e'))"
    using script_step [of s ip] by (auto simp: buckets_ok_def)
  with 5 show ?case by (auto simp: buckets_ok_def bucket_ok_def)
next
  case (6 s d ip)
  then show ?case by (simp add: buckets_def buckets_ok_def bucket_of_tick)
next
  case (7 s d)
  then show ?case by (simp add: tick_now)
next
  case (8 s d)
  then show ?case by (simp add: buckets_ok_def bucket_ok_tick)
next
  case (9 s ip n e)
  then show ?case using ok_bucket by (simp add: wf_tokens_def)
qed

context bucket_client
begin

text \<open>The contract and its consequences, stated for the client.\<close>

lemmas client_step = conjI [OF svc.decrement_reply conjI [OF svc.decrement_bucket conjI [OF svc.decrement_clock svc.decrement_ok]]]

lemmas client_window = svc.replies_admitted_window
lemmas client_steady = svc.replies_steady
lemmas client_pause = svc.pause_full

end

end
