(* ===== verification/RedisServer.thy ===== *)
theory RedisServer
  imports TokenBucket
begin

text \<open>
  A reference Redis: a clock, a table of string values with optional expiry times, and the
  five commands the script calls, errors included. It shows that the laws of
  \<open>healthy_redis\<close> can hold together, and gives the client's theorems something to run on.
\<close>

record server =
  srv_clock :: int
  srv_table :: "string \<Rightarrow> (string \<times> int option) option"

definition not_integer :: redis_err where
  "not_integer = RedisError ''ERR value is not an integer or out of range''"

definition invalid_expire :: redis_err where
  "invalid_expire = RedisError ''ERR invalid expire time''"

definition srv_EXISTS :: "server \<Rightarrow> string \<Rightarrow> (redis_err + int) \<times> server" where
  "srv_EXISTS s k = (Inr (if srv_table s k = None then 0 else 1), s)"

definition srv_GET :: "server \<Rightarrow> string \<Rightarrow> (redis_err + string option) \<times> server" where
  "srv_GET s k = (Inr (map_option fst (srv_table s k)), s)"

definition srv_SET_EX :: "server \<Rightarrow> string \<Rightarrow> string \<Rightarrow> string \<Rightarrow> (redis_err + unit) \<times> server" where
  "srv_SET_EX s k v ex =
     (case ParseInt ex of
        Inl _ \<Rightarrow> (Inl not_integer, s)
      | Inr t \<Rightarrow>
          if t \<le> 0 \<or> int64_max div 1000 < t then (Inl invalid_expire, s)
          else (Inr (), s\<lparr>srv_table := (srv_table s)(k \<mapsto> (v, Some (srv_clock s + 1000 * t)))\<rparr>))"

definition srv_DECRBY :: "server \<Rightarrow> string \<Rightarrow> string \<Rightarrow> (redis_err + int) \<times> server" where
  "srv_DECRBY s k d =
     (case ParseInt d of
        Inl _ \<Rightarrow> (Inl not_integer, s)
      | Inr m \<Rightarrow>
          (let (v, e) = (case srv_table s k of None \<Rightarrow> (''0'', None) | Some x \<Rightarrow> x)
           in case ParseInt v of
                Inl _ \<Rightarrow> (Inl not_integer, s)
              | Inr n \<Rightarrow>
                  if fits_int64 (n - m)
                  then (Inr (n - m), s\<lparr>srv_table := (srv_table s)(k \<mapsto> (show_int (n - m), e))\<rparr>)
                  else (Inl not_integer, s)))"

definition srv_EXPIRE :: "server \<Rightarrow> string \<Rightarrow> string \<Rightarrow> (redis_err + int) \<times> server" where
  "srv_EXPIRE s k ex =
     (case ParseInt ex of
        Inl _ \<Rightarrow> (Inl not_integer, s)
      | Inr t \<Rightarrow>
          if int64_max div 1000 < \<bar>t\<bar> then (Inl invalid_expire, s)
          else (case srv_table s k of
             None \<Rightarrow> (Inr 0, s)
           | Some (v, _) \<Rightarrow>
               (Inr 1, s\<lparr>srv_table := (srv_table s)(k :=
                  (if t \<le> 0 then None else Some (v, Some (srv_clock s + 1000 * t))))\<rparr>)))"

text \<open>Number conversions of the embedded Lua; only integral numbers are passed to commands here.\<close>

definition srv_tonumber :: "string \<Rightarrow> gofloat option" where
  "srv_tonumber v = map_option f64_of_rat (readFloat v)"

fun srv_tostring :: "gofloat \<Rightarrow> string" where
  "srv_tostring (Fin x) = show_int (trunc x)"
| "srv_tostring NaN = ''nan''"
| "srv_tostring (Inf s) = (if s then ''-inf'' else ''inf'')"

definition reference_redis :: "server redis" where
  "reference_redis =
     \<lparr> EXISTS = srv_EXISTS, SET_EX = srv_SET_EX, GET = srv_GET, DECRBY = srv_DECRBY,
       EXPIRE = srv_EXPIRE, lua_tonumber = srv_tonumber, lua_tostring = srv_tostring \<rparr>"

definition srv_tick :: "nat \<Rightarrow> server \<Rightarrow> server" where
  "srv_tick d s =
     s\<lparr> srv_clock := srv_clock s + int d,
        srv_table := (\<lambda>k. case srv_table s k of
           Some (v, Some e) \<Rightarrow> if e \<le> srv_clock s + int d then None else Some (v, Some e)
         | other \<Rightarrow> other) \<rparr>"

definition empty_server :: server where
  "empty_server = \<lparr> srv_clock = 0, srv_table = Map.empty \<rparr>"

lemma ParseInt_1 [simp]: "ParseInt ''1'' = Inr 1"
  using ParseInt_show_int [of 1] by (simp add: fits_int64_iff)

lemma int64_max_div [simp]: "int64_max div 1000 = 9223372036854775"
  by (simp add: int64_max_def)

lemma srv_SET_EX_cases:
  "srv_SET_EX s k v (show_int t) =
     (if 0 < t \<and> t \<le> int64_max div 1000
      then (Inr (), s\<lparr>srv_table := (srv_table s)(k \<mapsto> (v, Some (srv_clock s + 1000 * t)))\<rparr>)
      else (Inl (if fits_int64 t then invalid_expire else not_integer), s))"
proof (cases "fits_int64 t")
  case True
  then show ?thesis by (simp add: srv_SET_EX_def ParseInt_show_int)
next
  case False
  then show ?thesis
    by (auto simp: srv_SET_EX_def ParseInt_out_of_range fits_int64_iff int64_max_def)
qed

lemma srv_DECRBY_1:
  "srv_table s k = Some (show_int n, e) \<Longrightarrow> fits_int64 n \<Longrightarrow> fits_int64 (n - 1) \<Longrightarrow>
   srv_DECRBY s k ''1'' = (Inr (n - 1), s\<lparr>srv_table := (srv_table s)(k \<mapsto> (show_int (n - 1), e))\<rparr>)"
  by (simp add: srv_DECRBY_def ParseInt_show_int)

lemma srv_EXPIRE_live:
  "srv_table s k = Some (v, e) \<Longrightarrow> 0 < t \<Longrightarrow> t \<le> 10 ^ 10 \<Longrightarrow>
   srv_EXPIRE s k (show_int t) =
     (Inr 1, s\<lparr>srv_table := (srv_table s)(k \<mapsto> (v, Some (srv_clock s + 1000 * t)))\<rparr>)"
  by (simp add: srv_EXPIRE_def ParseInt_show_int fits_int64_iff)

lemma srv_clock_frame [simp]:
  "srv_clock (snd (srv_DECRBY s k d)) = srv_clock s" "srv_clock (snd (srv_EXPIRE s k ex)) = srv_clock s"
  by (auto simp: srv_DECRBY_def srv_EXPIRE_def split: option.splits sum.splits prod.splits)

lemma srv_tonumber_int: "srv_tonumber (show_int n) = Some (f64_of_int n)"
  by (simp add: srv_tonumber_def readFloat_show_int f64_of_int_def)

interpretation reference: healthy_redis reference_redis srv_clock srv_table srv_tick
  by unfold_locales
    (auto simp: reference_redis_def srv_EXISTS_def srv_GET_def srv_SET_EX_cases srv_DECRBY_1
      srv_EXPIRE_live srv_tonumber_int srv_tick_def split: option.splits)

subsection \<open>The default client on the reference server\<close>

definition default_client :: redis_Client where
  "default_client = \<lparr> bucketSize = 100, bucketTTL = 60000000000 \<rparr>"

definition no_oob :: "gofloat \<Rightarrow> int64" where
  "no_oob f = 0"

lemma default_ttl [simp]: "ttl_arg oob default_client = 60"
  unfolding ttl_arg_def by (rule Seconds_whole) (simp add: default_client_def)

lemma default_cap [simp]: "cap default_client = 100"
  by (simp add: cap_def default_client_def)

interpretation default_bucket: bucket_client reference_redis srv_clock srv_table srv_tick no_oob default_client
  by unfold_locales (simp add: wf_client_def)

lemma empty_server_ok [simp]: "buckets_ok srv_table c empty_server"
  by (simp add: buckets_ok_def bucket_ok_def empty_server_def)

lemma empty_server_buckets [simp]: "buckets srv_table empty_server ip = None"
  by (simp add: buckets_def empty_server_def)

subsection \<open>Properties of the token bucket\<close>

text \<open>
  C5. Over any Redis that behaves as documented, a delivered call of \<open>Decrement\<close> is one step of the
  abstract bucket of that client: the reply is the bucket's, that bucket and no other changes, and
  the stored buckets stay well formed.
\<close>

theorem decrement_refines_bucket:
  assumes "bucket_client R now entry tick oob c" "buckets_ok entry c s"
  shows "fst (Decrement R oob Delivered c ip s) =
        (fst (spec_decrement (cap c) (ttl_arg oob c) (now s) (buckets entry s ip)), None) \<and>
     buckets entry (snd (Decrement R oob Delivered c ip s)) =
        (buckets entry s)(ip := snd (spec_decrement (cap c) (ttl_arg oob c) (now s) (buckets entry s ip))) \<and>
     now (snd (Decrement R oob Delivered c ip s)) = now s \<and>
     buckets_ok entry c (snd (Decrement R oob Delivered c ip s))"
  using bucket_client.client_step [OF assms(1) assms(2,2,2,2)] .

theorem decrement_refines_bucket_witness:
  "fst (Decrement reference_redis no_oob Delivered default_client ''10.0.0.1'' empty_server) =
        (fst (spec_decrement 100 60 (srv_clock empty_server) (buckets srv_table empty_server ''10.0.0.1'')), None) \<and>
     buckets srv_table (snd (Decrement reference_redis no_oob Delivered default_client ''10.0.0.1'' empty_server)) =
        (buckets srv_table empty_server)(''10.0.0.1'' :=
           snd (spec_decrement 100 60 (srv_clock empty_server) (buckets srv_table empty_server ''10.0.0.1''))) \<and>
     srv_clock (snd (Decrement reference_redis no_oob Delivered default_client ''10.0.0.1'' empty_server)) =
       srv_clock empty_server \<and>
     buckets_ok srv_table default_client
       (snd (Decrement reference_redis no_oob Delivered default_client ''10.0.0.1'' empty_server))"
  using decrement_refines_bucket [OF default_bucket.bucket_client_axioms empty_server_ok, of "''10.0.0.1''"] by simp

text \<open>
  In any stretch of traffic shorter than the time to live, however the requests of different
  clients interleave, no client has more requests admitted than the bucket's capacity.
\<close>

lemma window_limit:
  assumes "bucket_client R now entry tick oob c" "buckets_ok entry c s" "total_wait es < 1000 * ttl_arg oob c"
  shows "length (filter (\<lambda>(i, r, _). i = ip \<and> 0 \<le> r) (replies (Decrement R oob Delivered c) tick s es)) \<le> nat (cap c)"
  by (rule bucket_client.client_window [OF assms])

text \<open>
  C7. A client that never pauses for the time to live between two requests is served its
  capacity once and refused from then on, for as long as it goes on: its replies are one countdown,
  and of its requests, however many, no more than the capacity is admitted. Each request, refused
  ones included, moves the expiry of its bucket.
\<close>

theorem steady_client_starves:
  assumes "bucket_client R now entry tick oob c" "buckets_ok entry c s" "buckets entry s ip = None"
    and "steady (1000 * ttl_arg oob c) ip 0 es"
  shows "map snd (filter (\<lambda>(i, _). i = ip) (replies (Decrement R oob Delivered c) tick s (Request ip # es))) =
     map (\<lambda>r. (r, None)) ((cap c - 1) # countdown (cap c - 1) (requests_of ip es)) \<and>
     length (filter (\<lambda>(i, r, _). i = ip \<and> 0 \<le> r) (replies (Decrement R oob Delivered c) tick s (Request ip # es))) =
     min (nat (cap c)) (Suc (requests_of ip es))"
  by (rule bucket_client.client_steady [OF assms])

theorem steady_client_starves_witness:
  "map snd (filter (\<lambda>(i, _). i = ''10.0.0.1'')
     (replies (Decrement reference_redis no_oob Delivered default_client) srv_tick empty_server
        [Request ''10.0.0.1'', Wait 59999, Request ''10.0.0.1'', Wait 59999, Request ''10.0.0.1''])) =
   map (\<lambda>r. (r, None)) [99, 98, 97]"
  using steady_client_starves [OF default_bucket.bucket_client_axioms empty_server_ok empty_server_buckets,
      of "''10.0.0.1''" "[Wait 59999, Request ''10.0.0.1'', Wait 59999, Request ''10.0.0.1'']"]
  by (simp add: numeral_2_eq_2)

text \<open>C8. A client that stays away for the time to live after a request finds a full bucket.\<close>

theorem pause_refills:
  assumes "bucket_client R now entry tick oob c" "buckets_ok entry c s" "1000 * ttl_arg oob c \<le> int d"
  shows "fst (Decrement R oob Delivered c ip (tick d (snd (Decrement R oob Delivered c ip s)))) = (cap c - 1, None)"
  by (rule bucket_client.client_pause [OF assms])

theorem pause_refills_witness:
  "fst (Decrement reference_redis no_oob Delivered default_client ''10.0.0.1''
     (srv_tick 60000 (snd (Decrement reference_redis no_oob Delivered default_client ''10.0.0.1'' empty_server)))) = (99, None)"
  using pause_refills [OF default_bucket.bucket_client_axioms empty_server_ok, of 60000 "''10.0.0.1''"] by simp

end
