(* ===== verification/Proto.thy ===== *)
theory Proto
  imports GoFloat
begin

text \<open>
  The messages of \<^verbatim>\<open>proto/scorer.proto\<close> as the Go code sees them: the two structs, the
  nil-safe accessors the engine and the scoring client call, and the stubs of client and server. A pointer
  to a message is an \<open>option\<close>; the accessors return the zero value on a nil receiver.
  \<^verbatim>\<open>grpc.ClientConnInterface.Invoke\<close> is a parameter of the stub: third-party code, which either
  fails or fills the response.
\<close>

record FeatureVector =
  ClientIp :: string
  Ja3Hash :: string
  UserAgentHash :: string
  ReqRate_1S :: gofloat
  ReqRate_10S :: gofloat
  ReqRate_60S :: gofloat
  HttpMethod :: string
  UriHash :: string
  ContentLength :: int64
  HeaderCount :: int32
  IsHttp2 :: int32
  UnixTimestamp :: int64

record ScoreResponse =
  AnomalyScore :: gofloat  \<comment> \<open>a \<^verbatim>\<open>float32\<close>\<close>
  ModelVersion :: string

definition zero_FeatureVector :: FeatureVector where
  "zero_FeatureVector =
     \<lparr> ClientIp = [], Ja3Hash = [], UserAgentHash = [], ReqRate_1S = Fin 0, ReqRate_10S = Fin 0,
       ReqRate_60S = Fin 0, HttpMethod = [], UriHash = [], ContentLength = 0, HeaderCount = 0,
       IsHttp2 = 0, UnixTimestamp = 0 \<rparr>"

fun GetClientIp :: "FeatureVector option \<Rightarrow> string" where
  "GetClientIp (Some x) = ClientIp x" | "GetClientIp None = []"

fun GetJa3Hash :: "FeatureVector option \<Rightarrow> string" where
  "GetJa3Hash (Some x) = Ja3Hash x" | "GetJa3Hash None = []"

fun GetUserAgentHash :: "FeatureVector option \<Rightarrow> string" where
  "GetUserAgentHash (Some x) = UserAgentHash x" | "GetUserAgentHash None = []"

fun GetReqRate_1S :: "FeatureVector option \<Rightarrow> gofloat" where
  "GetReqRate_1S (Some x) = ReqRate_1S x" | "GetReqRate_1S None = Fin 0"

fun GetReqRate_10S :: "FeatureVector option \<Rightarrow> gofloat" where
  "GetReqRate_10S (Some x) = ReqRate_10S x" | "GetReqRate_10S None = Fin 0"

fun GetReqRate_60S :: "FeatureVector option \<Rightarrow> gofloat" where
  "GetReqRate_60S (Some x) = ReqRate_60S x" | "GetReqRate_60S None = Fin 0"

fun GetHttpMethod :: "FeatureVector option \<Rightarrow> string" where
  "GetHttpMethod (Some x) = HttpMethod x" | "GetHttpMethod None = []"

fun GetUriHash :: "FeatureVector option \<Rightarrow> string" where
  "GetUriHash (Some x) = UriHash x" | "GetUriHash None = []"

fun GetContentLength :: "FeatureVector option \<Rightarrow> int64" where
  "GetContentLength (Some x) = ContentLength x" | "GetContentLength None = 0"

fun GetHeaderCount :: "FeatureVector option \<Rightarrow> int32" where
  "GetHeaderCount (Some x) = HeaderCount x" | "GetHeaderCount None = 0"

fun GetIsHttp2 :: "FeatureVector option \<Rightarrow> int32" where
  "GetIsHttp2 (Some x) = IsHttp2 x" | "GetIsHttp2 None = 0"

fun GetUnixTimestamp :: "FeatureVector option \<Rightarrow> int64" where
  "GetUnixTimestamp (Some x) = UnixTimestamp x" | "GetUnixTimestamp None = 0"

fun GetAnomalyScore :: "ScoreResponse option \<Rightarrow> gofloat" where
  "GetAnomalyScore (Some x) = AnomalyScore x" | "GetAnomalyScore None = Fin 0"

fun GetModelVersion :: "ScoreResponse option \<Rightarrow> string" where
  "GetModelVersion (Some x) = ModelVersion x" | "GetModelVersion None = []"

subsection \<open>The client stub\<close>

definition MLScorer_Score_FullMethodName :: string where
  "MLScorer_Score_FullMethodName = ''/scorer.MLScorer/Score''"

text \<open>
  A context is reduced to the time it leaves, in nanoseconds (\<open>None\<close>: no deadline).
  \<open>Invoke conn ctx method in out\<close> stands for \<^verbatim>\<open>cc.Invoke\<close>: an error, or the response it left in
  \<open>out\<close>. The stub starts from a zero response.
\<close>

type_synonym ctx = "int option"

definition Background :: ctx where "Background = None"

definition WithTimeout :: "ctx \<Rightarrow> int \<Rightarrow> ctx" where
  "WithTimeout ctx d = Some (case ctx of None \<Rightarrow> d | Some left \<Rightarrow> min left d)"

record 'e ClientConn =
  Invoke :: "ctx \<Rightarrow> string \<Rightarrow> FeatureVector option \<Rightarrow> ScoreResponse \<Rightarrow> 'e + ScoreResponse"
  conn_Close :: "'e option"

record 'e mLScorerClient =
  cc :: "'e ClientConn"

definition NewMLScorerClient :: "'e ClientConn \<Rightarrow> 'e mLScorerClient" where
  "NewMLScorerClient c = \<lparr> cc = c \<rparr>"

definition zero_response :: ScoreResponse where
  "zero_response = \<lparr> AnomalyScore = Fin 0, ModelVersion = [] \<rparr>"

definition mLScorerClient_Score ::
    "'e mLScorerClient \<Rightarrow> ctx \<Rightarrow> FeatureVector option \<Rightarrow> 'e + ScoreResponse option" where
  "mLScorerClient_Score c ctx fv =
     (case Invoke (cc c) ctx MLScorer_Score_FullMethodName fv zero_response of
        Inl err \<Rightarrow> Inl err
      | Inr out \<Rightarrow> Inr (Some out))"

subsection \<open>The server stub\<close>

text \<open>
  The other side of the service, as the generated code has it. A server is its one method; an error is a status. \<open>dec\<close> fills a message
  from the bytes of the call, an interceptor gets the request, what is called and how to go on.
\<close>

datatype rpc_error = Unimplemented string | RpcFailed string

type_synonym score_method = "ctx \<Rightarrow> FeatureVector option \<Rightarrow> rpc_error + ScoreResponse option"

record UnaryServerInfo =
  info_Server :: score_method
  info_FullMethod :: string

type_synonym interceptor = "ctx \<Rightarrow> FeatureVector option \<Rightarrow> UnaryServerInfo \<Rightarrow> score_method \<Rightarrow> rpc_error + ScoreResponse option"

definition UnimplementedMLScorerServer_Score :: score_method where
  "UnimplementedMLScorerServer_Score ctx fv = Inl (Unimplemented ''method Score not implemented'')"

type_synonym handler = "score_method \<Rightarrow> ctx \<Rightarrow> (FeatureVector \<Rightarrow> rpc_error + FeatureVector) \<Rightarrow> interceptor option \<Rightarrow> rpc_error + ScoreResponse option"

definition MLScorer_Score_Handler :: handler where
  "MLScorer_Score_Handler srv ctx dec intercept =
     (case dec zero_FeatureVector of
        Inl err \<Rightarrow> Inl err
      | Inr msg \<Rightarrow>
          (case intercept of
             None \<Rightarrow> srv ctx (Some msg)
           | Some ic \<Rightarrow>
               ic ctx (Some msg) \<lparr> info_Server = srv, info_FullMethod = MLScorer_Score_FullMethodName \<rparr> (\<lambda>ctx' req. srv ctx' req)))"

record ServiceDesc =
  ServiceName :: string
  Methods :: "(string \<times> handler) list"
  Streams :: "string list"
  Metadata :: string

definition MLScorer_ServiceDesc :: ServiceDesc where
  "MLScorer_ServiceDesc =
     \<lparr> ServiceName = ''scorer.MLScorer'', Methods = [(''Score'', MLScorer_Score_Handler)], Streams = [], Metadata = ''proto/scorer.proto'' \<rparr>"

text \<open>\<^verbatim>\<open>s.RegisterService\<close> is the registrar's.\<close>

definition RegisterMLScorerServer :: "('s \<Rightarrow> ServiceDesc \<Rightarrow> score_method \<Rightarrow> 's) \<Rightarrow> 's \<Rightarrow> score_method \<Rightarrow> 's" where
  "RegisterMLScorerServer registerService s srv = registerService s MLScorer_ServiceDesc srv"

text \<open>The name under which gRPC offers a method of a service. The client calls the one the description registers.\<close>

definition full_method :: "ServiceDesc \<Rightarrow> string \<Rightarrow> string" where
  "full_method desc name = ''/'' @ ServiceName desc @ ''/'' @ name"

lemma Score_registered:
  "(''Score'', MLScorer_Score_Handler) \<in> set (Methods MLScorer_ServiceDesc)"
  "full_method MLScorer_ServiceDesc ''Score'' = MLScorer_Score_FullMethodName"
  by (simp_all add: full_method_def MLScorer_Score_FullMethodName_def MLScorer_ServiceDesc_def)

text \<open>
  A connection to a server that hands each registered call to its handler, with the message as it was sent: the client stub
  gets what the server's method answers, whether a transparent interceptor is installed or none.
\<close>

locale rpc_wire =
  fixes conn :: "rpc_error ClientConn" and srv :: score_method and intercept :: "interceptor option"
  assumes delivered: "(name, h) \<in> set (Methods MLScorer_ServiceDesc) \<Longrightarrow>
      Invoke conn ctx (full_method MLScorer_ServiceDesc name) (Some fv) out =
      (case h srv ctx (\<lambda>_. Inr fv) intercept of Inl err \<Rightarrow> Inl err | Inr None \<Rightarrow> Inr out | Inr (Some resp) \<Rightarrow> Inr resp)"
    and transparent: "intercept = Some ic \<Longrightarrow> ic ctx req info handler = handler ctx req"
begin

lemma stub_meets_server:
  "mLScorerClient_Score (NewMLScorerClient conn) ctx (Some fv) =
     (case srv ctx (Some fv) of Inl err \<Rightarrow> Inl err | Inr None \<Rightarrow> Inr (Some zero_response) | Inr (Some resp) \<Rightarrow> Inr (Some resp))"
proof -
  have "MLScorer_Score_Handler srv ctx (\<lambda>_. Inr fv) intercept = srv ctx (Some fv)"
    using transparent by (cases intercept) (auto simp: MLScorer_Score_Handler_def)
  then show ?thesis
    using delivered [OF Score_registered(1), of ctx fv zero_response]
    by (simp add: mLScorerClient_Score_def NewMLScorerClient_def Score_registered(2) split: sum.splits option.splits)
qed

end

definition direct_conn :: "score_method \<Rightarrow> rpc_error ClientConn" where
  "direct_conn srv =
     \<lparr> Invoke = (\<lambda>ctx method fv out.
         case fv of None \<Rightarrow> Inl (RpcFailed ''no message'')
         | Some msg \<Rightarrow>
             (case map_of (map (map_prod (full_method MLScorer_ServiceDesc) id) (Methods MLScorer_ServiceDesc)) method of
                None \<Rightarrow> Inl (Unimplemented ''unknown method'')
              | Some h \<Rightarrow>
                  (case h srv ctx (\<lambda>_. Inr msg) None of
                     Inl err \<Rightarrow> Inl err | Inr None \<Rightarrow> Inr out | Inr (Some resp) \<Rightarrow> Inr resp))),
       conn_Close = None \<rparr>"

interpretation direct: rpc_wire "direct_conn srv" srv None for srv
  by unfold_locales (auto simp: direct_conn_def MLScorer_ServiceDesc_def)

text \<open>A server that only embeds the default answers every call with an error, which the client's callers count as no score.\<close>

lemma unimplemented_refused:
  "mLScorerClient_Score (NewMLScorerClient (direct_conn UnimplementedMLScorerServer_Score)) ctx (Some fv) =
     Inl (Unimplemented ''method Score not implemented'')"
  by (simp add: direct.stub_meets_server UnimplementedMLScorerServer_Score_def)

end
