(* ===== verification/MlClient.thy ===== *)
theory MlClient
  imports Proto
begin

text \<open>
  \<^verbatim>\<open>internal/ml/client.go\<close>: the scoring client. The gRPC connection is a parameter
  (\<open>ClientConn\<close>). The client is used through a pointer, an \<open>option\<close> here: a call on a nil
  client dereferences it and panics.
\<close>

definition Millisecond :: int where "Millisecond = 1000000"

definition callDeadline :: int where
  "callDeadline = 100 * Millisecond"

record 'e ml_Client =
  conn :: "'e ClientConn"
  scorer :: "'e mLScorerClient"

datatype dial_error = DialError string string  \<comment> \<open>the address and the cause\<close>

definition ml_New :: "(string \<Rightarrow> string + 'e ClientConn) \<Rightarrow> string \<Rightarrow> dial_error + 'e ml_Client" where
  "ml_New dial addr =
     (case dial addr of
        Inl err \<Rightarrow> Inl (DialError addr err)
      | Inr c \<Rightarrow> Inr \<lparr> conn = c, scorer = NewMLScorerClient c \<rparr>)"

definition Score ::
    "'e ml_Client option \<Rightarrow> ctx \<Rightarrow> FeatureVector option \<Rightarrow> (gofloat \<times> string \<times> 'e option) outcome" where
  "Score c ctx0 fv =
     (let ctx = WithTimeout ctx0 callDeadline
      in case c of
           None \<Rightarrow> Panics
         | Some cl \<Rightarrow>
             (case mLScorerClient_Score (scorer cl) ctx fv of
                Inl err \<Rightarrow> Returns (Fin 0, [], Some err)
              | Inr resp \<Rightarrow> Returns (GetAnomalyScore resp, GetModelVersion resp, None)))"

definition ml_Close :: "'e ml_Client \<Rightarrow> 'e option" where
  "ml_Close c = conn_Close (conn c)"

text \<open>
  A dialled client always answers: the sidecar's score and model version, or the fail-safe
  score of zero with the error. It asks the scorer's method once, with the request's own
  deadline cut to 100 ms.
\<close>

lemma Score_dialled:
  assumes "ml_New dial addr = Inr c" "dial addr = Inr cn"
  shows "Score (Some c) ctx0 fv =
     Returns (case Invoke cn (WithTimeout ctx0 callDeadline) MLScorer_Score_FullMethodName fv zero_response of
                Inl err \<Rightarrow> (Fin 0, [], Some err)
              | Inr r \<Rightarrow> (AnomalyScore r, ModelVersion r, None))"
  using assms
  by (auto simp: ml_New_def Score_def mLScorerClient_Score_def NewMLScorerClient_def split: sum.splits)

lemma Score_panics_iff: "Score c ctx0 fv = Panics \<longleftrightarrow> c = None"
  by (auto simp: Score_def Let_def split: option.splits sum.splits)

lemma Score_failed: "Score c ctx0 fv = Returns (s, v, Some err) \<Longrightarrow> s = Fin 0 \<and> v = []"
  by (auto simp: Score_def Let_def split: option.splits sum.splits)

lemma deadline_bound: "\<exists>d. WithTimeout ctx0 callDeadline = Some d \<and> d \<le> 100000000"
  by (auto simp: WithTimeout_def callDeadline_def Millisecond_def split: option.splits)

end
