(* ===== verification/Json.thy ===== *)
theory Json
  imports GoFloat
begin

text \<open>
  JSON values as \<^verbatim>\<open>encoding/json\<close> produces them from the program's structs and maps, and HTTP
  responses. The value tree is modelled, with object members in the order the encoder
  writes them (struct order, or sorted keys for a map); its text form is not.
\<close>

datatype json =
    JStr string
  | JInt int
  | JFloat gofloat
  | JTime int  \<comment> \<open>a \<^verbatim>\<open>time.Time\<close>, nanoseconds since the Unix epoch\<close>
  | JArr "json list"
  | JObj "(string \<times> json) list"

text \<open>
  \<^verbatim>\<open>json.Marshal\<close> fails on a float that is not a finite number and on a time outside the years
  0 to 9999, wherever they occur.
\<close>

datatype marshal_error = UnsupportedValue

fun finite_float :: "gofloat \<Rightarrow> bool" where
  "finite_float (Fin x) = True"
| "finite_float f = False"

definition time_encodable :: "int \<Rightarrow> bool" where
  "time_encodable t \<longleftrightarrow> - 62167219200 * 10 ^ 9 \<le> t \<and> t < 253402300800 * 10 ^ 9"

fun encodable :: "json \<Rightarrow> bool" where
  "encodable (JFloat f) = finite_float f"
| "encodable (JArr xs) = list_all encodable xs"
| "encodable (JObj ms) = list_all (\<lambda>(k, v). encodable v) ms"
| "encodable (JTime t) = time_encodable t"
| "encodable _ = True"

definition Marshal :: "json \<Rightarrow> marshal_error + json" where
  "Marshal v = (if encodable v then Inr v else Inl UnsupportedValue)"

subsection \<open>HTTP responses\<close>

datatype body = PlainText string | JsonBody json

record response =
  status :: nat
  body :: body

definition c_JSON :: "nat \<Rightarrow> json \<Rightarrow> response" where
  "c_JSON code v = \<lparr> status = code, body = JsonBody v \<rparr>"

definition http_Error :: "string \<Rightarrow> nat \<Rightarrow> response" where
  "http_Error msg code = \<lparr> status = code, body = PlainText msg \<rparr>"

abbreviation StatusOK :: nat where "StatusOK \<equiv> 200"
abbreviation StatusCreated :: nat where "StatusCreated \<equiv> 201"
abbreviation StatusBadRequest :: nat where "StatusBadRequest \<equiv> 400"
abbreviation StatusNotFound :: nat where "StatusNotFound \<equiv> 404"
abbreviation StatusMethodNotAllowed :: nat where "StatusMethodNotAllowed \<equiv> 405"
abbreviation StatusInternalServerError :: nat where "StatusInternalServerError \<equiv> 500"

lemma response_sel [simp]:
  "status (c_JSON code v) = code" "body (c_JSON code v) = JsonBody v"
  "status (http_Error msg code) = code" "body (http_Error msg code) = PlainText msg"
  by (simp_all add: c_JSON_def http_Error_def)

end
