(* ===== verification/Kafka.thy ===== *)
theory Kafka
  imports Json
begin

text \<open>
  \<^verbatim>\<open>internal/kafka/producer.go\<close>: the event publisher. The client library's writer is a
  parameter: \<open>WriteMessages\<close> and \<open>writer_Close\<close> act on a state \<open>'k\<close> and may fail. A message's value
  is the JSON document the event is encoded to.
\<close>

definition topicDecisions :: string where "topicDecisions = ''rate-limit-decisions''"
definition topicBlocked :: string where "topicBlocked = ''blocked-ips''"

record DecisionEvent =
  evt_IP :: string
  evt_Score :: gofloat
  evt_Action :: string
  evt_Timestamp :: int
  evt_FeatureVector :: json

datatype balancer = LeastBytes
datatype acks = RequireNone | RequireOne | RequireAll

record Writer =
  w_Addr :: "string list"
  w_Topic :: string
  w_Balancer :: balancer
  w_BatchSize :: nat
  w_BatchTimeout :: int  \<comment> \<open>nanoseconds\<close>
  w_WriteTimeout :: int  \<comment> \<open>nanoseconds\<close>
  w_RequiredAcks :: acks
  w_AllowAutoTopicCreation :: bool

record Message =
  msg_Key :: string
  msg_Value :: json

record 'k kafka =
  WriteMessages :: "Writer \<Rightarrow> Message \<Rightarrow> 'k \<Rightarrow> string option \<times> 'k"
  writer_Close :: "Writer \<Rightarrow> 'k \<Rightarrow> string option \<times> 'k"

record Producer =
  decisions :: Writer
  blocked :: Writer

definition newWriter :: "string list \<Rightarrow> string \<Rightarrow> Writer" where
  "newWriter brokers topic =
     \<lparr> w_Addr = brokers, w_Topic = topic, w_Balancer = LeastBytes, w_BatchSize = 100,
       w_BatchTimeout = 10 * 1000000, w_WriteTimeout = 5 * 1000000000,
       w_RequiredAcks = RequireOne, w_AllowAutoTopicCreation = False \<rparr>"

definition kafka_New :: "string list \<Rightarrow> Producer" where
  "kafka_New brokers =
     \<lparr> decisions = newWriter brokers topicDecisions, blocked = newWriter brokers topicBlocked \<rparr>"

text \<open>The struct tags of \<^verbatim>\<open>DecisionEvent\<close> and of the anonymous blocked-IP struct.\<close>

definition decision_json :: "DecisionEvent \<Rightarrow> json" where
  "decision_json e = JObj
     [(''ip'', JStr (evt_IP e)), (''score'', JFloat (evt_Score e)), (''action'', JStr (evt_Action e)),
      (''timestamp'', JTime (evt_Timestamp e)), (''feature_vector'', evt_FeatureVector e)]"

definition blocked_json :: "string \<Rightarrow> int \<Rightarrow> json" where
  "blocked_json ip now = JObj [(''ip'', JStr ip), (''timestamp'', JTime now)]"

definition PublishDecision :: "'k kafka \<Rightarrow> Producer \<Rightarrow> DecisionEvent \<Rightarrow> 'k \<Rightarrow> 'k" where
  "PublishDecision K p evt k =
     (case Marshal (decision_json evt) of
        Inl err \<Rightarrow> k
      | Inr b \<Rightarrow>
          (case WriteMessages K (decisions p) \<lparr> msg_Key = evt_IP evt, msg_Value = b \<rparr> k of
             (Some err, k') \<Rightarrow> k'
           | (None, k') \<Rightarrow> k'))"

definition PublishBlocked :: "'k kafka \<Rightarrow> Producer \<Rightarrow> int \<Rightarrow> string \<Rightarrow> 'k \<Rightarrow> 'k" where
  "PublishBlocked K p now ip k =
     (case Marshal (blocked_json ip now) of
        Inl err \<Rightarrow> k
      | Inr b \<Rightarrow>
          (case WriteMessages K (blocked p) \<lparr> msg_Key = ip, msg_Value = b \<rparr> k of
             (Some err, k') \<Rightarrow> k'
           | (None, k') \<Rightarrow> k'))"

definition kafka_Close :: "'k kafka \<Rightarrow> Producer \<Rightarrow> 'k \<Rightarrow> string option \<times> 'k" where
  "kafka_Close K p k0 =
     (let errs = [];
          (e1, k1) = writer_Close K (decisions p) k0;
          errs = (case e1 of Some err \<Rightarrow> errs @ [err] | None \<Rightarrow> errs);
          (e2, k2) = writer_Close K (blocked p) k1;
          errs = (case e2 of Some err \<Rightarrow> errs @ [err] | None \<Rightarrow> errs)
      in (if 0 < length errs then Some (errs ! 0) else None, k2))"

text \<open>\<^verbatim>\<open>Close\<close> closes both writers, whatever the first call returns, and reports the first error.\<close>

lemma kafka_Close_both:
  "snd (kafka_Close K p k) = snd (writer_Close K (blocked p) (snd (writer_Close K (decisions p) k)))"
  "fst (kafka_Close K p k) =
     (case fst (writer_Close K (decisions p) k) of
        Some e \<Rightarrow> Some e
      | None \<Rightarrow> fst (writer_Close K (blocked p) (snd (writer_Close K (decisions p) k))))"
  by (auto simp: kafka_Close_def Let_def split: prod.splits option.splits)

subsection \<open>What reaches a broker\<close>

text \<open>
  A broker that keeps every message it is sent, per topic; it may refuse some of them.
\<close>

definition broker_kafka :: "(Writer \<Rightarrow> Message \<Rightarrow> bool) \<Rightarrow> (string \<times> Message) list kafka" where
  "broker_kafka refuses =
     \<lparr> WriteMessages = (\<lambda>w msg k. if refuses w msg then (Some ''refused'', k) else (None, k @ [(w_Topic w, msg)])),
       writer_Close = (\<lambda>w k. (None, k)) \<rparr>"

locale kafka_log =
  fixes K :: "'k kafka"
    and sent :: "'k \<Rightarrow> (string \<times> Message) list"
  assumes write_ok: "fst (WriteMessages K w msg k) = None \<Longrightarrow>
        sent (snd (WriteMessages K w msg k)) = sent k @ [(w_Topic w, msg)]"
    and write_failed: "fst (WriteMessages K w msg k) \<noteq> None \<Longrightarrow>
        sent (snd (WriteMessages K w msg k)) = sent k \<or>
        sent (snd (WriteMessages K w msg k)) = sent k @ [(w_Topic w, msg)]"
begin

text \<open>
  Publishing is best effort: at most one message, on the right topic, keyed by the address,
  and nothing at all for an event that cannot be encoded.
\<close>

lemma PublishDecision_sent:
  "sent (PublishDecision K (kafka_New brokers) evt k) = sent k \<or>
   encodable (decision_json evt) \<and>
   sent (PublishDecision K (kafka_New brokers) evt k) =
     sent k @ [(topicDecisions, \<lparr> msg_Key = evt_IP evt, msg_Value = decision_json evt \<rparr>)]"
  using write_ok [of "newWriter brokers topicDecisions" "\<lparr> msg_Key = evt_IP evt, msg_Value = decision_json evt \<rparr>" k]
    write_failed [of "newWriter brokers topicDecisions" "\<lparr> msg_Key = evt_IP evt, msg_Value = decision_json evt \<rparr>" k]
  by (auto simp: PublishDecision_def Marshal_def kafka_New_def newWriter_def split: prod.splits option.splits)

lemma PublishBlocked_sent:
  "sent (PublishBlocked K (kafka_New brokers) now ip k) = sent k \<or>
   sent (PublishBlocked K (kafka_New brokers) now ip k) =
     sent k @ [(topicBlocked, \<lparr> msg_Key = ip, msg_Value = blocked_json ip now \<rparr>)]"
  using write_ok [of "newWriter brokers topicBlocked" "\<lparr> msg_Key = ip, msg_Value = blocked_json ip now \<rparr>" k]
    write_failed [of "newWriter brokers topicBlocked" "\<lparr> msg_Key = ip, msg_Value = blocked_json ip now \<rparr>" k]
  by (auto simp: PublishBlocked_def Marshal_def kafka_New_def newWriter_def split: prod.splits option.splits)

end

interpretation broker: kafka_log "broker_kafka refuses" "\<lambda>k. k" for refuses
  by unfold_locales (auto simp: broker_kafka_def split: if_splits)

subsection \<open>Properties\<close>

text \<open>
  Publishing a decision sends at most one message: on the decisions topic, keyed by the client's
  address, holding the whole event; an event with a number that JSON cannot express sends nothing.
\<close>

lemma publish_decision_best_effort:
  assumes "kafka_log K sent"
  shows "\<exists>new. sent (PublishDecision K (kafka_New brokers) evt k) = sent k @ new \<and>
     new \<in> (if encodable (decision_json evt)
       then {[], [(''rate-limit-decisions'', \<lparr> msg_Key = evt_IP evt, msg_Value = decision_json evt \<rparr>)]} else {[]})"
  using kafka_log.PublishDecision_sent [OF assms, of brokers evt k] by (auto simp: topicDecisions_def)

text \<open>Closing the producer closes both writers, whatever the first answers, and reports the first error.\<close>

lemma close_closes_both:
  "kafka_Close K p k =
     (let (e1, k1) = writer_Close K (decisions p) k; (e2, k2) = writer_Close K (blocked p) k1
      in (if e1 = None then e2 else e1, k2))"
  using kafka_Close_both [of K p k] by (cases "kafka_Close K p k") (auto split: prod.splits option.splits)

end
