(* ===== verification/GoNet.thy ===== *)
theory GoNet
  imports GoStrings
begin

text \<open>
  \<^verbatim>\<open>net.ParseIP\<close>, \<^verbatim>\<open>IP.To4\<close> and \<^verbatim>\<open>IP.String\<close> of Go's standard library (as of Go 1.22, which the
  module requires), on which both block lists rest. An IP is its byte slice: 16 bytes
  as \<^verbatim>\<open>ParseIP\<close> returns it, an IPv4 address in its IPv4-mapped form \<^verbatim>\<open>::ffff:a.b.c.d\<close>.
\<close>

subsection \<open>Dotted decimal\<close>

text \<open>
  The loop of \<^verbatim>\<open>netip.parseIPv4Fields\<close>: \<open>prev\<close> is the character before the current one,
  \<open>val\<close> and \<open>dl\<close> (\<^verbatim>\<open>digLen\<close>) belong to the octet being read, \<open>fs\<close> holds the octets read so far.
\<close>

fun ipv4_loop :: "char option \<Rightarrow> nat \<Rightarrow> nat \<Rightarrow> nat list \<Rightarrow> string \<Rightarrow> nat list option" where
  "ipv4_loop prev val dl fs [] = (if length fs < 3 then None else Some (fs @ [val]))"
| "ipv4_loop prev val dl fs (c # cs) =
     (if is_digit c then
        (if dl = 1 \<and> val = 0 then None
         else let v = 10 * val + digit_val c
              in if 255 < v then None else ipv4_loop (Some c) v (Suc dl) fs cs)
      else if c = CHR ''.'' then
        (if prev = None \<or> cs = [] \<or> prev = Some CHR ''.'' then None
         else if length fs = 3 then None
         else ipv4_loop (Some c) 0 0 (fs @ [val]) cs)
      else None)"

definition parseIPv4Fields :: "string \<Rightarrow> byte list option" where
  "parseIPv4Fields s = map_option (map of_nat) (ipv4_loop None 0 0 [] s)"

subsection \<open>Colon-separated groups\<close>

fun scan_hex16 :: "nat \<Rightarrow> nat \<Rightarrow> string \<Rightarrow> (nat \<times> nat \<times> string) option" where
  "scan_hex16 off acc [] = Some (off, acc, [])"
| "scan_hex16 off acc (c # cs) =
     (case digit_in 16 c of
        None \<Rightarrow> Some (off, acc, c # cs)
      | Some d \<Rightarrow>
          if 3 < off then None
          else if 65535 < 16 * acc + d then None
          else scan_hex16 (Suc off) (16 * acc + d) cs)"

text \<open>
  The group loop of \<^verbatim>\<open>netip.parseIPv6\<close>: \<open>ell\<close> is the position of \<^verbatim>\<open>::\<close>, \<open>ip\<close> the bytes written so
  far (their number is the loop's index). The result is the state at the loop's exit.
\<close>

function ipv6_loop :: "nat option \<Rightarrow> byte list \<Rightarrow> string \<Rightarrow> (nat option \<times> byte list \<times> string) option" where
  "ipv6_loop ell ip s =
     (if 16 \<le> length ip then Some (ell, ip, s)
      else case scan_hex16 0 0 s of
        None \<Rightarrow> None
      | Some (off, acc, rest) \<Rightarrow>
          if off = 0 then None
          else if rest \<noteq> [] \<and> hd rest = CHR ''.'' then
            (if ell = None \<and> length ip \<noteq> 12 then None
             else if 16 < length ip + 4 then None
             else map_option (\<lambda>f. (ell, ip @ f, [])) (parseIPv4Fields s))
          else
            (let ip' = ip @ [of_nat (acc div 256), of_nat (acc mod 256)]
             in case rest of
                  [] \<Rightarrow> Some (ell, ip', [])
                | c # t \<Rightarrow>
                    if c \<noteq> CHR '':'' \<or> t = [] then None
                    else if hd t = CHR '':'' then
                      (if ell \<noteq> None then None
                       else if tl t = [] then Some (Some (length ip'), ip', [])
                       else ipv6_loop (Some (length ip')) ip' (tl t))
                    else ipv6_loop ell ip' t))"
  by pat_completeness auto
termination
  by (relation "measure (\<lambda>(ell, ip, s). 16 - length ip)") auto

declare ipv6_loop.simps [simp del]

definition parseIPv6 :: "string \<Rightarrow> byte list option" where
  "parseIPv6 s =
     (let lead = prefix ''::'' s; t = (if lead then drop 2 s else s)
      in if lead \<and> t = [] then Some (replicate 16 0)
         else case ipv6_loop (if lead then Some 0 else None) [] t of
           None \<Rightarrow> None
         | Some (ell, ip, rest) \<Rightarrow>
             if rest \<noteq> [] then None
             else if length ip < 16 then
               (case ell of None \<Rightarrow> None
                | Some e \<Rightarrow> Some (take e ip @ replicate (16 - length ip) 0 @ drop e ip))
             else if ell \<noteq> None then None
             else Some ip)"

definition mapped_prefix :: "byte list" where
  "mapped_prefix = replicate 10 0 @ [0xff, 0xff]"

text \<open>
  \<^verbatim>\<open>net.ParseIP\<close>: the first of dot, colon and percent sign decides; an address with a zone is
  refused, whether or not it is well formed.
\<close>

definition ParseIP :: "string \<Rightarrow> byte list option" where
  "ParseIP s =
     (case find (\<lambda>c. c \<in> {CHR ''.'', CHR '':'', CHR ''%''}) s of
        Some c \<Rightarrow>
          if c = CHR ''.'' then map_option (\<lambda>b. mapped_prefix @ b) (parseIPv4Fields s)
          else if c = CHR '':'' \<and> CHR ''%'' \<notin> set s then parseIPv6 s
          else None
      | None \<Rightarrow> None)"

definition To4 :: "byte list \<Rightarrow> byte list option" where
  "To4 ip =
     (if length ip = 4 then Some ip
      else if length ip = 16 \<and> take 12 ip = mapped_prefix then Some (drop 12 ip)
      else None)"

text \<open>\<^verbatim>\<open>IP.String\<close> on a four-byte address.\<close>

definition IP_String4 :: "byte list \<Rightarrow> string" where
  "IP_String4 b = Join CHR ''.'' (map (show_nat \<circ> unat) b)"

subsection \<open>Parsing what was printed\<close>

lemma not_is_digit_dot [simp]: "\<not> is_digit CHR ''.''"
  by (simp add: is_digit_def)

lemma ipv4_loop_show_nat:
  "v \<le> 255 \<Longrightarrow> ipv4_loop prev 0 0 fs (show_nat v @ rest) =
     ipv4_loop (Some (last (show_nat v))) v (length (show_nat v)) fs rest"
proof (induction v arbitrary: rest rule: show_nat.induct)
  case (1 v)
  show ?case
  proof (cases "v < 10")
    case True
    then show ?thesis by (simp add: show_nat.simps [of v] Let_def)
  next
    case False
    with 1 have "ipv4_loop prev 0 0 fs (show_nat (v div 10) @ digit_char (v mod 10) # rest) =
       ipv4_loop (Some (last (show_nat (v div 10)))) (v div 10) (length (show_nat (v div 10))) fs
         (digit_char (v mod 10) # rest)"
      by simp
    also have "\<dots> = ipv4_loop (Some (digit_char (v mod 10))) v (Suc (length (show_nat (v div 10)))) fs rest"
      using False 1(2) by (simp add: Let_def div_eq_0_iff)
    finally show ?thesis using False by (simp add: show_nat.simps [of v])
  qed
qed

lemma ipv4_loop_octet:
  assumes "v \<le> 255"
  obtains p dl where "p \<noteq> CHR ''.''"
    and "ipv4_loop prev 0 0 fs (show_nat v @ rest) = ipv4_loop (Some p) v dl fs rest"
proof
  show "last (show_nat v) \<noteq> CHR ''.''"
    using show_nat_digits [of "last (show_nat v)" v] by auto
qed (rule ipv4_loop_show_nat [OF assms])

lemma ipv4_loop_print:
  assumes "a \<le> 255" "b \<le> 255" "c \<le> 255" "d \<le> 255"
  shows "ipv4_loop None 0 0 [] (Join CHR ''.'' (map show_nat [a, b, c, d])) = Some [a, b, c, d]"
proof -
  have step: "ipv4_loop prev 0 0 fs (show_nat v @ CHR ''.'' # show_nat w @ rest) =
      ipv4_loop (Some CHR ''.'') 0 0 (fs @ [v]) (show_nat w @ rest)"
    if "v \<le> 255" "length fs < 3" for prev fs v w rest
    using that(2) by (rule_tac ipv4_loop_octet [OF that(1), of prev fs "CHR ''.'' # show_nat w @ rest"]) simp
  have last: "ipv4_loop prev 0 0 fs (show_nat v) = Some (fs @ [v])" if "v \<le> 255" "length fs = 3"
    for prev fs v
    using that(2) by (rule_tac ipv4_loop_octet [OF that(1), of prev fs "[]"]) simp
  show ?thesis
    using assms step [of a "[]"] step [of b "[a]"] step [of c "[a, b]" _ d "[]"] last [of d "[a, b, c]"]
    by simp
qed

lemma unat_byte_le [simp]: "unat (b :: byte) \<le> 255"
  using unsigned_less [of b, where ?'a = nat] by simp

lemma four_bytes: "length b = 4 \<Longrightarrow> \<exists>b0 b1 b2 b3. b = [b0, b1, b2, b3]"
  by (auto simp: numeral_eq_Suc length_Suc_conv)

lemma parseIPv4Fields_print [codec_simps]:
  assumes "length b = 4"
  shows "parseIPv4Fields (IP_String4 b) = Some b"
proof -
  obtain b0 b1 b2 b3 where b: "b = [b0, b1, b2, b3]" using four_bytes [OF assms] by blast
  show ?thesis
    using ipv4_loop_print [of "unat b0" "unat b1" "unat b2" "unat b3"]
    by (simp add: parseIPv4Fields_def IP_String4_def b)
qed

text \<open>A printed address starts with a digit and reaches a dot before any colon.\<close>

lemma find_dot:
  assumes "\<forall>c \<in> set ds. is_digit c"
  shows "find (\<lambda>c. c \<in> {CHR ''.'', CHR '':'', CHR ''%''}) (ds @ CHR ''.'' # t) = Some CHR ''.''"
  using assms by (induction ds) (auto simp: is_digit_def)

lemma ParseIP_print [codec_simps]:
  assumes "length b = 4"
  shows "ParseIP (IP_String4 b) = Some (mapped_prefix @ b)"
proof -
  obtain b0 b1 b2 b3 where b: "b = [b0, b1, b2, b3]" using four_bytes [OF assms] by blast
  have "find (\<lambda>c. c \<in> {CHR ''.'', CHR '':'', CHR ''%''}) (IP_String4 b) = Some CHR ''.''"
    using find_dot [of "show_nat (unat b0)"] show_nat_digits by (auto simp: IP_String4_def b)
  then show ?thesis using parseIPv4Fields_print [OF assms] by (simp add: ParseIP_def)
qed

lemma To4_mapped [simp, codec_simps]: "length b = 4 \<Longrightarrow> To4 (mapped_prefix @ b) = Some b"
  by (simp add: To4_def mapped_prefix_def)

lemma To4_length: "To4 ip = Some b \<Longrightarrow> length b = 4"
  by (auto simp: To4_def split: if_splits)

subsection \<open>Printing what was parsed\<close>

text \<open>
  The dotted form is canonical: no octet has a leading zero, so a string the parser accepts
  is the one \<^const>\<open>IP_String4\<close> prints.
\<close>

lemma Join_snoc: "Join sep (ps @ [p]) = concat (map (\<lambda>q. q @ [sep]) ps) @ p"
proof (induction ps)
  case (Cons q ps)
  then show ?case by (cases ps) auto
qed simp

definition ipv4_inv :: "char option \<Rightarrow> nat \<Rightarrow> nat \<Rightarrow> nat list \<Rightarrow> string \<Rightarrow> bool" where
  "ipv4_inv prev val dl fs s \<longleftrightarrow>
     (dl = 0 \<longleftrightarrow> prev = None \<or> prev = Some CHR ''.'') \<and>
     (dl = 0 \<longrightarrow> val = 0 \<and> (s = [] \<longrightarrow> fs = [])) \<and> (1 < dl \<longrightarrow> 0 < val) \<and>
     val \<le> 255 \<and> (\<forall>f \<in> set fs. f \<le> 255) \<and> length fs \<le> 3"

lemma ipv4_loop_sound:
  assumes "ipv4_loop prev val dl fs s = Some r" "ipv4_inv prev val dl fs s"
  shows "length r = 4 \<and> (\<forall>f \<in> set r. f \<le> 255) \<and>
     Join CHR ''.'' (map show_nat r) =
       concat (map (\<lambda>f. show_nat f @ ''.'') fs) @ (if dl = 0 then [] else show_nat val) @ s"
  using assms
proof (induction prev val dl fs s rule: ipv4_loop.induct)
  case (1 prev val dl fs)
  then show ?case
    by (auto simp: ipv4_inv_def Join_snoc comp_def split: if_splits)
next
  case (2 prev val dl fs c cs)
  consider (digit) "is_digit c" | (dot) "c = CHR ''.''" | (bad) "\<not> is_digit c" "c \<noteq> CHR ''.''" by blast
  then show ?case
  proof cases
    case digit
    have step: "ipv4_loop (Some c) (10 * val + digit_val c) (Suc dl) fs cs = Some r"
      and nz: "\<not> (dl = 1 \<and> val = 0)" and v: "10 * val + digit_val c \<le> 255"
      using 2(3) digit by (auto simp: Let_def split: if_splits)
    have pos: "0 < val" if "dl \<noteq> 0" using that nz 2(4) by (cases "dl = 1") (auto simp: ipv4_inv_def)
    have "ipv4_inv (Some c) (10 * val + digit_val c) (Suc dl) fs cs"
      using 2(4) digit v pos by (auto simp: ipv4_inv_def)
    with 2(1) digit nz v step
    have IH: "length r = 4 \<and> (\<forall>f \<in> set r. f \<le> 255) \<and> Join CHR ''.'' (map show_nat r) =
       concat (map (\<lambda>f. show_nat f @ ''.'') fs) @ show_nat (10 * val + digit_val c) @ cs"
      by auto
    have "show_nat (10 * val + digit_val c) = (if dl = 0 then [] else show_nat val) @ [c]"
      using digit pos 2(4) digit_val_less [OF digit]
      by (auto simp: show_nat_snoc ipv4_inv_def show_nat.simps [of "digit_val c"])
    with IH show ?thesis by simp
  next
    case dot
    have step: "ipv4_loop (Some c) 0 0 (fs @ [val]) cs = Some r"
      and g: "prev \<noteq> None" "prev \<noteq> Some CHR ''.''" "cs \<noteq> []" "length fs \<noteq> 3"
      using 2(3) dot by (auto split: if_splits)
    have "ipv4_inv (Some c) 0 0 (fs @ [val]) cs" using 2(4) g dot by (auto simp: ipv4_inv_def)
    with 2(2) [OF _ dot] g step dot
    have "length r = 4 \<and> (\<forall>f \<in> set r. f \<le> 255) \<and> Join CHR ''.'' (map show_nat r) =
       concat (map (\<lambda>f. show_nat f @ ''.'') (fs @ [val])) @ cs"
      by simp
    moreover have "dl \<noteq> 0" using 2(4) g by (simp add: ipv4_inv_def)
    ultimately show ?thesis using dot by simp
  next
    case bad
    with 2(3) show ?thesis by simp
  qed
qed

lemma parseIPv4Fields_sound:
  assumes "parseIPv4Fields s = Some b"
  shows "length b = 4 \<and> IP_String4 b = s"
proof -
  obtain r where r: "ipv4_loop None 0 0 [] s = Some r" and b: "b = map of_nat r"
    using assms by (auto simp: parseIPv4Fields_def)
  have inv: "ipv4_inv None 0 0 [] s" by (simp add: ipv4_inv_def)
  have s: "length r = 4" "\<forall>f \<in> set r. f \<le> 255" "Join CHR ''.'' (map show_nat r) = s"
    using ipv4_loop_sound [OF r inv] by auto
  have "unat (of_nat f :: byte) = f" if "f \<in> set r" for f
    using s(2) that by (auto simp: unat_of_nat)
  then have m: "map (show_nat \<circ> unat) b = map show_nat r" by (simp add: b comp_def)
  show ?thesis unfolding IP_String4_def m using s(1,3) by (simp add: b)
qed

lemma ParseIP_dotted:
  assumes "ParseIP s = Some ip" "CHR '':'' \<notin> set s"
  shows "\<exists>b. length b = 4 \<and> ip = mapped_prefix @ b \<and> s = IP_String4 b"
proof -
  obtain c where c: "find (\<lambda>c. c \<in> {CHR ''.'', CHR '':'', CHR ''%''}) s = Some c"
    using assms(1) by (auto simp: ParseIP_def split: option.splits)
  then have "c \<in> set s" by (metis find_Some_iff nth_mem)
  with assms(2) have "c \<noteq> CHR '':''" by auto
  with assms(1) c obtain b where "parseIPv4Fields s = Some b" "ip = mapped_prefix @ b"
    by (auto simp: ParseIP_def split: if_splits)
  with parseIPv4Fields_sound show ?thesis by blast
qed

end
