(* ===== verification/BpfMap.thy ===== *)
theory BpfMap
  imports GoNet
begin

text \<open>
  The kernel's \<^verbatim>\<open>blocked_ips\<close> map as user space sees it through \<^verbatim>\<open>github.com/cilium/ebpf\<close>. Library
  and kernel are parameters: a record of functions on a map state \<open>'m\<close>. The locale \<open>bpf_map\<close>
  states what their documentation promises: keys and values are marshalled in native byte
  order, a call whose key or value does not marshal to the map's size fails, an LRU map may
  evict other entries on insertion, deleting an absent key fails. A list-based LRU map
  satisfies it.
\<close>

subsection \<open>Values and their marshalling\<close>

datatype go_value = Bytes "byte list" | U32 uint32 | U64 uint64

definition be64 :: "uint64 \<Rightarrow> byte list" where
  "be64 v = PutUint32 (ucast (drop_bit 32 v)) @ PutUint32 (ucast v)"

definition native :: "bool \<Rightarrow> byte list \<Rightarrow> byte list" where
  "native little b = (if little then rev b else b)"

fun marshal :: "bool \<Rightarrow> go_value \<Rightarrow> byte list" where
  "marshal little (Bytes b) = b"
| "marshal little (U32 w) = native little (PutUint32 w)"
| "marshal little (U64 w) = native little (be64 w)"

lemma length_native [simp]: "length (native little b) = length b"
  by (simp add: native_def)

lemma native_native [simp]: "native little (native little b) = b"
  by (simp add: native_def)

lemma native_inj [simp]: "native little a = native little b \<longleftrightarrow> a = b"
  by (simp add: native_def)

lemma length_marshal [simp, codec_simps]:
  "length (marshal little (U32 w)) = 4" "length (marshal little (U64 v)) = 8"
  by (simp_all add: be64_def)

lemma be64_inj [simp]: "be64 v = be64 w \<longleftrightarrow> v = w"
proof
  assume "be64 v = be64 w"
  then have e: "(ucast (drop_bit 32 v) :: uint32) = ucast (drop_bit 32 w)" "(ucast v :: uint32) = ucast w"
    by (simp_all add: be64_def)
  show "v = w"
  proof (rule bit_word_eqI)
    fix n assume n: "n < LENGTH(64)"
    show "bit v n = bit w n"
    proof (cases "n < 32")
      case True
      have "bit (ucast v :: uint32) n = bit (ucast w :: uint32) n" using e(2) by simp
      with True show ?thesis by (simp add: bit_simps)
    next
      case False
      have "bit (ucast (drop_bit 32 v) :: uint32) (n - 32) = bit (ucast (drop_bit 32 w) :: uint32) (n - 32)"
        using e(1) by simp
      moreover have "n - 32 < 32" using n by simp
      ultimately show ?thesis using False by (simp add: bit_simps)
    qed
  qed
qed simp

lemma marshal_inj [simp]:
  "marshal little (U32 v) = marshal little (U32 w) \<longleftrightarrow> v = w"
  "marshal little (U64 x) = marshal little (U64 y) \<longleftrightarrow> x = y"
  by simp_all

subsection \<open>The library\<close>

datatype map_error = SizeMismatch | KeyNotExist | OtherMapError string

record 'm bpf =
  Put :: "'m \<Rightarrow> go_value \<Rightarrow> go_value \<Rightarrow> map_error option \<times> 'm"
  Delete :: "'m \<Rightarrow> go_value \<Rightarrow> map_error option \<times> 'm"
  Iterate :: "'m \<Rightarrow> map_error option \<times> (byte list \<times> byte list) list"

locale bpf_map =
  fixes B :: "'m bpf"
    and little :: bool
    and lookup :: "'m \<Rightarrow> byte list \<Rightarrow> byte list option"
    and key_size :: "'m \<Rightarrow> nat"
    and value_size :: "'m \<Rightarrow> nat"
    and ok :: "'m \<Rightarrow> bool"
  assumes put_reply: "ok m \<Longrightarrow>
        fst (Put B m k v) =
          (if length (marshal little k) = key_size m \<and> length (marshal little v) = value_size m
           then None else Some SizeMismatch)"
    and put_bad: "ok m \<Longrightarrow> fst (Put B m k v) \<noteq> None \<Longrightarrow> snd (Put B m k v) = m"
    and put_same: "ok m \<Longrightarrow> fst (Put B m k v) = None \<Longrightarrow>
        lookup (snd (Put B m k v)) (marshal little k) = Some (marshal little v)"
    and put_other: "ok m \<Longrightarrow> fst (Put B m k v) = None \<Longrightarrow> k' \<noteq> marshal little k \<Longrightarrow>
        lookup (snd (Put B m k v)) k' = lookup m k' \<or> lookup (snd (Put B m k v)) k' = None"
    and put_sizes: "ok m \<Longrightarrow> key_size (snd (Put B m k v)) = key_size m"
        "ok m \<Longrightarrow> value_size (snd (Put B m k v)) = value_size m"
    and put_ok: "ok m \<Longrightarrow> ok (snd (Put B m k v))"
    and delete_reply: "ok m \<Longrightarrow>
        fst (Delete B m k) =
          (if length (marshal little k) \<noteq> key_size m then Some SizeMismatch
           else if lookup m (marshal little k) = None then Some KeyNotExist else None)"
    and delete_bad: "ok m \<Longrightarrow> fst (Delete B m k) \<noteq> None \<Longrightarrow> snd (Delete B m k) = m"
    and delete_lookup: "ok m \<Longrightarrow> fst (Delete B m k) = None \<Longrightarrow>
        lookup (snd (Delete B m k)) = (lookup m)(marshal little k := None)"
    and delete_sizes: "ok m \<Longrightarrow> key_size (snd (Delete B m k)) = key_size m"
        "ok m \<Longrightarrow> value_size (snd (Delete B m k)) = value_size m"
    and delete_ok: "ok m \<Longrightarrow> ok (snd (Delete B m k))"
    and iterate_entries: "ok m \<Longrightarrow> fst (Iterate B m) = None"
        "ok m \<Longrightarrow> map_of (snd (Iterate B m)) = lookup m"
        "ok m \<Longrightarrow> distinct (map fst (snd (Iterate B m)))"
    and lookup_sizes: "ok m \<Longrightarrow> lookup m kb = Some vb \<Longrightarrow> length kb = key_size m \<and> length vb = value_size m"
begin

text \<open>A successful insertion is undone by a deletion of the same key.\<close>

lemma put_delete:
  assumes "ok m" "fst (Put B m k v) = None"
  shows "fst (Delete B (snd (Put B m k v)) k) = None"
    and "lookup (snd (Delete B (snd (Put B m k v)) k)) (marshal little k) = None"
proof -
  have d: "fst (Delete B (snd (Put B m k v)) k) = None"
    using assms put_reply [of m k v] put_same [of m k v] put_sizes(1) [of m k v] put_ok [of m k v]
    by (simp add: delete_reply split: if_splits)
  then show "fst (Delete B (snd (Put B m k v)) k) = None" .
  show "lookup (snd (Delete B (snd (Put B m k v)) k)) (marshal little k) = None"
    using assms d put_ok by (simp add: delete_lookup)
qed

end

subsection \<open>A reference LRU map\<close>

record lru =
  lru_entries :: "(byte list \<times> byte list) list"  \<comment> \<open>most recently used first\<close>
  lru_max :: nat
  lru_key :: nat
  lru_value :: nat

definition lru_ok :: "lru \<Rightarrow> bool" where
  "lru_ok m \<longleftrightarrow> 0 < lru_max m \<and> length (lru_entries m) \<le> lru_max m \<and>
     distinct (map fst (lru_entries m)) \<and>
     (\<forall>(k, v) \<in> set (lru_entries m). length k = lru_key m \<and> length v = lru_value m)"

definition lru_lookup :: "lru \<Rightarrow> byte list \<Rightarrow> byte list option" where
  "lru_lookup m = map_of (lru_entries m)"

definition without :: "'a \<Rightarrow> ('a \<times> 'b) list \<Rightarrow> ('a \<times> 'b) list" where
  "without k xs = filter (\<lambda>p. fst p \<noteq> k) xs"

definition lru_Put :: "bool \<Rightarrow> lru \<Rightarrow> go_value \<Rightarrow> go_value \<Rightarrow> map_error option \<times> lru" where
  "lru_Put little m k v =
     (let kb = marshal little k; vb = marshal little v
      in if length kb \<noteq> lru_key m \<or> length vb \<noteq> lru_value m then (Some SizeMismatch, m)
         else (None, m\<lparr>lru_entries := take (lru_max m) ((kb, vb) # without kb (lru_entries m))\<rparr>))"

definition lru_Delete :: "bool \<Rightarrow> lru \<Rightarrow> go_value \<Rightarrow> map_error option \<times> lru" where
  "lru_Delete little m k =
     (let kb = marshal little k
      in if length kb \<noteq> lru_key m then (Some SizeMismatch, m)
         else if lru_lookup m kb = None then (Some KeyNotExist, m)
         else (None, m\<lparr>lru_entries := without kb (lru_entries m)\<rparr>))"

definition lru_bpf :: "bool \<Rightarrow> lru bpf" where
  "lru_bpf little =
     \<lparr> Put = lru_Put little, Delete = lru_Delete little, Iterate = (\<lambda>m. (None, lru_entries m)) \<rparr>"

definition new_lru :: "nat \<Rightarrow> nat \<Rightarrow> nat \<Rightarrow> lru" where
  "new_lru n ks vs = \<lparr> lru_entries = [], lru_max = n, lru_key = ks, lru_value = vs \<rparr>"

lemma map_of_without: "map_of (without k xs) = (map_of xs)(k := None)"
  by (induction xs) (auto simp: without_def)

lemma map_of_take: "distinct (map fst xs) \<Longrightarrow> map_of (take n xs) k = map_of xs k \<or> map_of (take n xs) k = None"
  by (induction xs arbitrary: n) (auto simp: take_Cons' dest: map_of_SomeD split: if_splits)

lemma without_ok [simp]:
  "distinct (map fst xs) \<Longrightarrow> distinct (map fst (without k xs))"
  "set (without k xs) = {p \<in> set xs. fst p \<noteq> k}" "length (without k xs) \<le> length xs"
  by (auto simp: without_def distinct_map_filter)

interpretation lru: bpf_map "lru_bpf little" little lru_lookup lru_key lru_value lru_ok for little
proof (unfold_locales, goal_cases)
  case (3 m k v)
  then show ?case
    by (auto simp: lru_bpf_def lru_Put_def lru_lookup_def lru_ok_def Let_def take_Cons' split: if_splits)
next
  case (4 m k v k')
  have "distinct (map fst ((marshal little k, marshal little v) # without (marshal little k) (lru_entries m)))"
    using 4 by (auto simp: lru_ok_def)
  from map_of_take [OF this, of "lru_max m" k'] 4 show ?case
    by (auto simp: lru_bpf_def lru_Put_def lru_lookup_def Let_def map_of_without split: if_splits)
next
  case (7 m k v)
  let ?e = "(marshal little k, marshal little v) # without (marshal little k) (lru_entries m)"
  have "distinct (map fst (take (lru_max m) ?e))"
    using 7 unfolding take_map [symmetric]
    by (intro distinct_take) (auto simp: lru_ok_def)
  with 7 show ?case
    by (auto simp: lru_bpf_def lru_Put_def lru_ok_def Let_def dest!: in_set_takeD)
next
  case (13 m k)
  then show ?case
    using order_trans [OF without_ok(3), of "lru_entries m" "lru_max m" "marshal little k"]
    by (auto simp: lru_bpf_def lru_Delete_def lru_ok_def Let_def)
next
  case (17 m k v)
  then show ?case by (auto simp: lru_ok_def lru_lookup_def dest: map_of_SomeD)
qed (auto simp: lru_bpf_def lru_Put_def lru_Delete_def lru_lookup_def lru_ok_def Let_def map_of_without
      split: if_splits)

lemma new_lru_ok [simp]: "0 < n \<Longrightarrow> lru_ok (new_lru n ks vs)"
  by (simp add: lru_ok_def new_lru_def)

lemma new_lru_sel [simp]:
  "lru_key (new_lru n ks vs) = ks" "lru_value (new_lru n ks vs) = vs" "lru_lookup (new_lru n ks vs) k = None"
  by (simp_all add: new_lru_def lru_lookup_def)

end
