(* ===== verification/Blocklist.thy ===== *)
theory Blocklist
  imports BpfMap Json
begin

text \<open>
  \<^verbatim>\<open>decision-engine/cmd/ebpf/blocklist.go\<close>: the decision engine's view of the kernel block map,
  and the two HTTP handlers that manage it. The handle is absent in no-op mode; the map's
  contents are the state \<open>'m\<close> threaded through the calls. \<^verbatim>\<open>ShouldBindJSON\<close> of gin is a
  parameter: an error message, or the bound \<^verbatim>\<open>ip\<close> field.
\<close>

definition pinnedMapPath :: string where
  "pinnedMapPath = ''/sys/fs/bpf/ratelimiter/blocked_ips''"

datatype map_handle = MapHandle string  \<comment> \<open>the pin it was opened from\<close>

record Blocklist =
  bl_m :: "map_handle option"  \<comment> \<open>\<open>None\<close>: no-op mode\<close>

definition ebpf_New :: "(string \<Rightarrow> string + map_handle) \<Rightarrow> Blocklist" where
  "ebpf_New loadPinned =
     (case loadPinned pinnedMapPath of
        Inl err \<Rightarrow> \<lparr> bl_m = None \<rparr>
      | Inr h \<Rightarrow> \<lparr> bl_m = Some h \<rparr>)"

datatype ip_error = InvalidIP string | OnlyIPv4 string

text \<open>
  \<^verbatim>\<open>ipToKey\<close>: \<^verbatim>\<open>binary.BigEndian.Uint32(ip4)\<close> would panic on a slice shorter than four bytes;
  \<^verbatim>\<open>To4\<close> never returns one (\<open>ipToKey_total\<close>), so the panic branch is dead.
\<close>

definition ipToKey :: "string \<Rightarrow> (ip_error + byte list) outcome" where
  "ipToKey s =
     (case ParseIP s of
        None \<Rightarrow> Returns (Inl (InvalidIP s))
      | Some ip \<Rightarrow>
          (case To4 ip of
             None \<Rightarrow> Returns (Inl (OnlyIPv4 s))
           | Some ip4 \<Rightarrow>
               (case Uint32 ip4 of Panics \<Rightarrow> Panics | Returns v \<Rightarrow> Returns (Inr (PutUint32 v)))))"

datatype bl_error = BadAddress ip_error | PutFailed string map_error | DeleteFailed string map_error

definition Add ::
    "'m bpf \<Rightarrow> Blocklist \<Rightarrow> string \<Rightarrow> 'm \<Rightarrow> bl_error option outcome \<times> 'm" where
  "Add B b ip m =
     (if bl_m b = None then (Returns None, m)
      else case ipToKey ip of
        Panics \<Rightarrow> (Panics, m)
      | Returns (Inl err) \<Rightarrow> (Returns (Some (BadAddress err)), m)
      | Returns (Inr key) \<Rightarrow>
          (case Put B m (Bytes key) (U32 1) of
             (Some err, m') \<Rightarrow> (Returns (Some (PutFailed ip err)), m')
           | (None, m') \<Rightarrow> (Returns None, m')))"

definition Remove ::
    "'m bpf \<Rightarrow> Blocklist \<Rightarrow> string \<Rightarrow> 'm \<Rightarrow> bl_error option outcome \<times> 'm" where
  "Remove B b ip m =
     (if bl_m b = None then (Returns None, m)
      else case ipToKey ip of
        Panics \<Rightarrow> (Panics, m)
      | Returns (Inl err) \<Rightarrow> (Returns (Some (BadAddress err)), m)
      | Returns (Inr key) \<Rightarrow>
          (case Delete B m (Bytes key) of
             (Some err, m') \<Rightarrow> (Returns (Some (DeleteFailed ip err)), m')
           | (None, m') \<Rightarrow> (Returns None, m')))"

definition bl_Close :: "(map_handle \<Rightarrow> string option) \<Rightarrow> Blocklist \<Rightarrow> string option" where
  "bl_Close closeMap b = (case bl_m b of Some h \<Rightarrow> closeMap h | None \<Rightarrow> None)"

subsection \<open>HTTP handlers\<close>

text \<open>\<open>show_err\<close> is the text of the error, \<^verbatim>\<open>err.Error()\<close>.\<close>

definition handleBlock ::
    "'m bpf \<Rightarrow> (bl_error \<Rightarrow> string) \<Rightarrow> (string \<Rightarrow> string + string) \<Rightarrow> Blocklist \<Rightarrow> string \<Rightarrow> 'm
     \<Rightarrow> response outcome \<times> 'm" where
  "handleBlock B show_err bindJSON b reqBody m =
     (case bindJSON reqBody of
        Inl err \<Rightarrow> (Returns (c_JSON StatusBadRequest (JObj [(''error'', JStr err)])), m)
      | Inr ip \<Rightarrow>
          (case Add B b ip m of
             (Panics, m') \<Rightarrow> (Panics, m')
           | (Returns (Some err), m') \<Rightarrow>
               (Returns (c_JSON StatusInternalServerError (JObj [(''error'', JStr (show_err err))])), m')
           | (Returns None, m') \<Rightarrow> (Returns (c_JSON StatusOK (JObj [(''blocked'', JStr ip)])), m')))"

definition handleUnblock ::
    "'m bpf \<Rightarrow> (bl_error \<Rightarrow> string) \<Rightarrow> Blocklist \<Rightarrow> string \<Rightarrow> 'm \<Rightarrow> response outcome \<times> 'm" where
  "handleUnblock B show_err b ip m =
     (case Remove B b ip m of
        (Panics, m') \<Rightarrow> (Panics, m')
      | (Returns (Some err), m') \<Rightarrow>
          (Returns (c_JSON StatusInternalServerError (JObj [(''error'', JStr (show_err err))])), m')
      | (Returns None, m') \<Rightarrow> (Returns (c_JSON StatusOK (JObj [(''unblocked'', JStr ip)])), m'))"

declare handleBlock_def [flow_simps] handleUnblock_def [flow_simps]

subsection \<open>Keys\<close>

lemma Uint32_four: "length b = 4 \<Longrightarrow> \<exists>v. Uint32 b = Returns v \<and> PutUint32 v = b"
  using PutUint32_surj [of b] by (metis Uint32_PutUint32)

text \<open>The key is the four bytes of the address in network order; nothing panics.\<close>

lemma ipToKey_eq:
  "ipToKey s = Returns
     (case ParseIP s of None \<Rightarrow> Inl (InvalidIP s)
      | Some ip \<Rightarrow> (case To4 ip of None \<Rightarrow> Inl (OnlyIPv4 s) | Some ip4 \<Rightarrow> Inr ip4))"
  using Uint32_four To4_length by (fastforce simp: ipToKey_def split: option.splits)

lemma ipToKey_total: "ipToKey s \<noteq> Panics"
  by (simp add: ipToKey_eq)

lemma ipToKey_length: "ipToKey s = Returns (Inr k) \<Longrightarrow> length k = 4"
  by (auto simp: ipToKey_eq To4_length split: option.splits)

lemma ipToKey_print [codec_simps]: "length k = 4 \<Longrightarrow> ipToKey (IP_String4 k) = Returns (Inr k)"
  by (simp add: ipToKey_eq codec_simps)

text \<open>
  On addresses without a colon the key determines the text: a key is never shared by two
  dotted addresses.
\<close>

lemma ipToKey_dotted:
  assumes "ipToKey s = Returns (Inr k)" "CHR '':'' \<notin> set s"
  shows "s = IP_String4 k"
proof -
  obtain ip where ip: "ParseIP s = Some ip" "To4 ip = Some k"
    using assms(1) by (auto simp: ipToKey_eq split: option.splits)
  obtain b where "length b = 4" "ip = mapped_prefix @ b" "s = IP_String4 b"
    using ParseIP_dotted [OF ip(1) assms(2)] by blast
  with ip(2) show ?thesis by simp
qed

lemma Add_total: "fst (Add B b ip m) \<noteq> Panics"
  using ipToKey_total [of ip]
  by (auto simp: Add_def split: outcome.splits sum.splits option.splits prod.splits)

lemma Remove_total: "fst (Remove B b ip m) \<noteq> Panics"
  using ipToKey_total [of ip]
  by (auto simp: Remove_def split: outcome.splits sum.splits option.splits prod.splits)

subsection \<open>The block-list contract\<close>

text \<open>
  What the decision engine expects of its \<^verbatim>\<open>Blocklist\<close> interface: adding a well-formed address
  blocks it, removing a blocked one unblocks it, an address that is not well-formed is
  refused without effect, and no call panics.
\<close>

locale block_list =
  fixes add :: "string \<Rightarrow> 'm \<Rightarrow> 'e option outcome \<times> 'm"
    and remove :: "string \<Rightarrow> 'm \<Rightarrow> 'e option outcome \<times> 'm"
    and blocked :: "'m \<Rightarrow> string \<Rightarrow> bool"
    and valid :: "string \<Rightarrow> bool"
    and ok :: "'m \<Rightarrow> bool"
  assumes add_blocks: "ok m \<Longrightarrow> valid ip \<Longrightarrow> fst (add ip m) = Returns None \<and> blocked (snd (add ip m)) ip"
    and add_invalid: "\<not> valid ip \<Longrightarrow> \<exists>e. add ip m = (Returns (Some e), m)"
    and add_ok: "ok m \<Longrightarrow> ok (snd (add ip m))"
    and remove_unblocks: "ok m \<Longrightarrow> blocked m ip \<Longrightarrow>
        fst (remove ip m) = Returns None \<and> \<not> blocked (snd (remove ip m)) ip"
    and remove_other: "ok m \<Longrightarrow> \<not> blocked m ip \<Longrightarrow> \<exists>e. remove ip m = (Returns (Some e), m)"
    and remove_ok: "ok m \<Longrightarrow> ok (snd (remove ip m))"
    and blocked_valid: "blocked m ip \<Longrightarrow> valid ip"
begin

lemma add_no_panic: "ok m \<Longrightarrow> fst (add ip m) \<noteq> Panics"
  using add_blocks [of m ip] add_invalid [of ip m] by (cases "valid ip") auto

lemma add_remove:
  assumes "ok m" "valid ip"
  shows "\<not> blocked (snd (remove ip (snd (add ip m)))) ip"
  using assms add_blocks [of m ip] add_ok [of m ip] remove_unblocks [of "snd (add ip m)" ip] by auto

end

definition valid_ip :: "string \<Rightarrow> bool" where
  "valid_ip s = (case ipToKey s of Returns (Inr k) \<Rightarrow> True | _ \<Rightarrow> False)"

definition ip_blocked :: "('m \<Rightarrow> byte list \<Rightarrow> byte list option) \<Rightarrow> 'm \<Rightarrow> string \<Rightarrow> bool" where
  "ip_blocked lookup m s = (case ipToKey s of Returns (Inr k) \<Rightarrow> lookup m k \<noteq> None | _ \<Rightarrow> False)"

lemma valid_ipE:
  assumes "valid_ip s"
  obtains k where "ipToKey s = Returns (Inr k)" "length k = 4"
  using assms ipToKey_length by (auto simp: valid_ip_def split: outcome.splits sum.splits)

lemma not_valid_ip: "\<not> valid_ip s \<Longrightarrow> \<exists>e. ipToKey s = Returns (Inl e)"
  using ipToKey_total [of s] by (auto simp: valid_ip_def split: outcome.splits sum.splits)

text \<open>An open block list over a map whose keys and values are four bytes wide.\<close>

definition words_map :: "('m \<Rightarrow> nat) \<Rightarrow> ('m \<Rightarrow> nat) \<Rightarrow> ('m \<Rightarrow> bool) \<Rightarrow> 'm \<Rightarrow> bool" where
  "words_map key_size value_size ok m \<longleftrightarrow> ok m \<and> key_size m = 4 \<and> value_size m = 4"

locale ebpf_blocklist = bpf_map B little lookup key_size value_size ok
  for B :: "'m bpf" and little lookup key_size value_size ok +
  fixes b :: Blocklist
  assumes opened: "bl_m b \<noteq> None"
begin

lemma Add_valid:
  assumes "words_map key_size value_size ok m" "ipToKey ip = Returns (Inr k)"
  shows "Add B b ip m = (Returns None, snd (Put B m (Bytes k) (U32 1)))"
    and "fst (Put B m (Bytes k) (U32 1)) = None"
proof -
  show p: "fst (Put B m (Bytes k) (U32 1)) = None"
    using assms ipToKey_length [OF assms(2)] by (simp add: words_map_def put_reply)
  show "Add B b ip m = (Returns None, snd (Put B m (Bytes k) (U32 1)))"
    using assms(2) opened p by (cases "Put B m (Bytes k) (U32 1)") (auto simp: Add_def)
qed

lemma Remove_valid:
  assumes "words_map key_size value_size ok m" "ipToKey ip = Returns (Inr k)"
  shows "Remove B b ip m =
     (if lookup m k = None then (Returns (Some (DeleteFailed ip KeyNotExist)), m)
      else (Returns None, snd (Delete B m (Bytes k))))"
  using assms opened ipToKey_length [OF assms(2)] delete_reply [of m "Bytes k"] delete_bad [of m "Bytes k"]
  by (cases "Delete B m (Bytes k)") (auto simp: Remove_def words_map_def split: if_splits)

text \<open>
  The value written is a \<^verbatim>\<open>uint32\<close>; a map whose values have another size refuses it and is
  left as it was.
\<close>

lemma Add_value_size:
  assumes "ok m" "value_size m \<noteq> 4" "ipToKey ip = Returns (Inr k)"
  shows "Add B b ip m = (Returns (Some (PutFailed ip SizeMismatch)), m)"
  using assms opened put_reply [of m "Bytes k" "U32 1"] put_bad [of m "Bytes k" "U32 1"]
  by (cases "Put B m (Bytes k) (U32 1)") (auto simp: Add_def)

lemma Add_blocks:
  assumes m: "words_map key_size value_size ok m" and ip: "valid_ip ip"
  shows "fst (Add B b ip m) = Returns None \<and> ip_blocked lookup (snd (Add B b ip m)) ip"
proof -
  obtain k where k: "ipToKey ip = Returns (Inr k)" using ip by (rule valid_ipE)
  show ?thesis using Add_valid [OF m k] put_same [of m "Bytes k" "U32 1"] k m
    by (simp add: ip_blocked_def words_map_def)
qed

lemma Add_invalid: "\<not> valid_ip ip \<Longrightarrow> \<exists>e. Add B b ip m = (Returns (Some e), m)"
  using not_valid_ip [of ip] opened by (auto simp: Add_def)

lemma Remove_unblocks:
  assumes m: "words_map key_size value_size ok m" and bl: "ip_blocked lookup m ip"
  shows "fst (Remove B b ip m) = Returns None \<and> \<not> ip_blocked lookup (snd (Remove B b ip m)) ip"
proof -
  obtain k where k: "ipToKey ip = Returns (Inr k)" "lookup m k \<noteq> None"
    using bl by (auto simp: ip_blocked_def split: outcome.splits sum.splits)
  then have "fst (Delete B m (Bytes k)) = None"
    using m ipToKey_length [OF k(1)] by (simp add: words_map_def delete_reply)
  then show ?thesis using Remove_valid [OF m k(1)] k m
    by (simp add: ip_blocked_def words_map_def delete_lookup)
qed

lemma Remove_other:
  assumes "words_map key_size value_size ok m" "\<not> ip_blocked lookup m ip"
  shows "\<exists>e. Remove B b ip m = (Returns (Some e), m)"
proof (cases "valid_ip ip")
  case True
  then obtain k where k: "ipToKey ip = Returns (Inr k)" by (rule valid_ipE)
  then show ?thesis using assms Remove_valid [OF assms(1) k] by (auto simp: ip_blocked_def)
next
  case False
  then show ?thesis using not_valid_ip [of ip] opened by (auto simp: Remove_def)
qed

lemma words_map_Add: "words_map key_size value_size ok m \<Longrightarrow> words_map key_size value_size ok (snd (Add B b ip m))"
  using Add_invalid [of ip m] Add_valid(1) [of m ip]
  by (cases "valid_ip ip") (auto elim!: valid_ipE simp: words_map_def put_sizes put_ok)

lemma words_map_Remove:
  assumes "words_map key_size value_size ok m"
  shows "words_map key_size value_size ok (snd (Remove B b ip m))"
proof (cases "ip_blocked lookup m ip")
  case True
  then obtain k where k: "ipToKey ip = Returns (Inr k)"
    by (auto simp: ip_blocked_def split: outcome.splits sum.splits)
  then show ?thesis using assms Remove_valid [OF assms k] by (auto simp: words_map_def delete_sizes delete_ok)
next
  case False
  then show ?thesis using assms Remove_other [OF assms] by force
qed

end

sublocale ebpf_blocklist \<subseteq> bl: block_list "Add B b" "Remove B b" "ip_blocked lookup" valid_ip
  "words_map key_size value_size ok"
  by unfold_locales
    (auto simp: Add_invalid Add_blocks words_map_Add Remove_unblocks Remove_other words_map_Remove,
     auto simp: ip_blocked_def valid_ip_def split: outcome.splits sum.splits)

definition open_blocklist :: Blocklist where
  "open_blocklist = \<lparr> bl_m = Some (MapHandle pinnedMapPath) \<rparr>"

interpretation lru_blocklist: ebpf_blocklist "lru_bpf little" little lru_lookup lru_key lru_value lru_ok open_blocklist
  for little
  by unfold_locales (simp add: open_blocklist_def)

subsection \<open>Properties\<close>


lemma sample_address [simp]: "valid_ip ''10.0.0.1''"
  by code_simp

lemma new_words_map [simp]: "0 < n \<Longrightarrow> words_map lru_key lru_value lru_ok (new_lru n 4 4)"
  by (simp add: words_map_def)


text \<open>
  The filter's map holds eight-byte expiry times; the block list writes a four-byte value.
  Adding an address to a map whose values are not four bytes always fails and blocks nobody.
\<close>

lemma add_refused_by_wide_map:
  assumes "ebpf_blocklist B little lookup key_size value_size ok b" "ok m" "value_size m \<noteq> 4" "ipToKey ip = Returns (Inr k)"
  shows "Add B b ip m = (Returns (Some (PutFailed ip SizeMismatch)), m)"
  by (rule ebpf_blocklist.Add_value_size [OF assms])

text \<open>
  For addresses in dotted form the map key is the address: a text without colon has the
  key \<open>k\<close> exactly when \<open>k\<close> has four bytes and the text is their canonical dotted form.
\<close>

lemma dotted_key_iff:
  assumes "CHR '':'' \<notin> set s"
  shows "ipToKey s = Returns (Inr k) \<longleftrightarrow> length k = 4 \<and> s = IP_String4 k"
  using assms ipToKey_dotted [of s k] ipToKey_length [of s k] ipToKey_print [of k] by auto

text \<open>
  The block handler answers 200 and blocks the address when it is an IPv4 address, and
  otherwise answers 500 and leaves the map alone; it never panics.
\<close>

lemma block_handler_status:
  assumes "ebpf_blocklist B little lookup key_size value_size ok b" "words_map key_size value_size ok m"
    and "bindJSON reqBody = Inr ip"
  shows "\<exists>r m'. handleBlock B show_err bindJSON b reqBody m = (Returns r, m') \<and>
     status r = (if valid_ip ip then StatusOK else StatusInternalServerError) \<and>
     (if valid_ip ip then ip_blocked lookup m' ip else m' = m)"
proof (cases "valid_ip ip")
  case True
  then obtain m' where "Add B b ip m = (Returns None, m')" "ip_blocked lookup m' ip"
    using ebpf_blocklist.Add_blocks [OF assms(1,2)] by (metis prod.collapse)
  with True assms(3) show ?thesis by (simp add: flow_simps)
next
  case False
  then show ?thesis using ebpf_blocklist.Add_invalid [OF assms(1) False, of m] assms(3)
    by (auto simp: flow_simps)
qed

end
