(* ===== verification/Engine.thy ===== *)
theory Engine
  imports Config RedisServer MlClient Kafka Blocklist
begin

text \<open>
  \<^verbatim>\<open>internal/engine/engine.go\<close> and \<^verbatim>\<open>engine_testing.go\<close>: the decision logic. \<open>Evaluate\<close> is the whole
  handler: it takes a token, asks for a score, decides, updates the block list and starts
  the goroutines that publish events. The state it acts on is a \<open>world\<close>; a goroutine it
  starts is a pending task there, run later and in any order (\<open>run_task\<close>).
\<close>

subsection \<open>Data\<close>

datatype Action = ActionAllow | ActionThrottle | ActionBlock

fun action_string :: "Action \<Rightarrow> string" where
  "action_string ActionAllow = ''allow''"
| "action_string ActionThrottle = ''throttle''"
| "action_string ActionBlock = ''block''"

record Decision =
  dec_Action :: Action
  dec_RetryAfter :: int  \<comment> \<open>seconds\<close>

text \<open>The \<^verbatim>\<open>Blocklist\<close> interface.\<close>

record ('b, 'm) blocklist_iface =
  iface_Add :: "string \<Rightarrow> 'm \<Rightarrow> 'b option outcome \<times> 'm"
  iface_Remove :: "string \<Rightarrow> 'm \<Rightarrow> 'b option outcome \<times> 'm"

record ('e, 'b, 'm) Engine =
  e_cfg :: Config
  e_redis :: redis_Client
  e_ml :: "'e ml_Client option"
  e_kafka :: Producer
  e_blocklist :: "('b, 'm) blocklist_iface"

definition engine_New ::
    "Config \<Rightarrow> redis_Client \<Rightarrow> 'e ml_Client option \<Rightarrow> Producer \<Rightarrow> ('b, 'm) blocklist_iface \<Rightarrow> ('e, 'b, 'm) Engine" where
  "engine_New cfg redis ml kp bl =
     \<lparr> e_cfg = cfg, e_redis = redis, e_ml = ml, e_kafka = kp, e_blocklist = bl \<rparr>"

text \<open>The kernel block list behind that interface.\<close>

definition blocklist_of :: "'m bpf \<Rightarrow> Blocklist \<Rightarrow> (bl_error, 'm) blocklist_iface" where
  "blocklist_of B b = \<lparr> iface_Add = Add B b, iface_Remove = Remove B b \<rparr>"

text \<open>Goroutines the engine starts.\<close>

datatype task = TaskBlocked string | TaskDecision DecisionEvent

record ('r, 'm) world =
  w_redis :: 'r
  w_map :: 'm
  w_tasks :: "task list"  \<comment> \<open>started, not yet run; in the order they were started\<close>

definition go :: "task \<Rightarrow> ('r, 'm) world \<Rightarrow> ('r, 'm) world" where
  "go t w = w\<lparr> w_tasks := w_tasks w @ [t] \<rparr>"

subsection \<open>Evaluate\<close>

text \<open>A \<^verbatim>\<open>map[string]interface{}\<close>: the encoder writes its members in the order of their keys.\<close>

definition feature_json :: "FeatureVector option \<Rightarrow> json" where
  "feature_json fv = JObj
     [(''http_method'', JStr (GetHttpMethod fv)),
      (''is_http2'', JInt (sint (GetIsHttp2 fv))),
      (''ja3_hash'', JStr (GetJa3Hash fv)),
      (''req_rate_10s'', JFloat (GetReqRate_10S fv)),
      (''req_rate_1s'', JFloat (GetReqRate_1S fv)),
      (''req_rate_60s'', JFloat (GetReqRate_60S fv)),
      (''user_agent_hash'', JStr (GetUserAgentHash fv))]"

text \<open>
  \<open>net\<close> is the fate of this request's Redis call, \<open>now\<close> the reading of \<^verbatim>\<open>time.Now()\<close>, \<open>oob\<close> the
  result of a float-to-integer conversion that is out of range (platform dependent in Go).
\<close>

definition Evaluate ::
    "'r redis \<Rightarrow> (gofloat \<Rightarrow> int64) \<Rightarrow> transport \<Rightarrow> int \<Rightarrow> ('e, 'b, 'm) Engine \<Rightarrow> ctx
     \<Rightarrow> FeatureVector option \<Rightarrow> ('r, 'm) world \<Rightarrow> Decision outcome \<times> ('r, 'm) world" where
  "Evaluate R oob net now e ctx0 fv w0 =
     (let ip = GetClientIp fv;
          ((remaining, redisErr), r) = Decrement R oob net (e_redis e) ip (w_redis w0);
          w1 = w0\<lparr> w_redis := r \<rparr>;
          bucketExhausted = (redisErr \<noteq> None \<or> remaining < 0);
          bucketExhausted = (if redisErr \<noteq> None then False else bucketExhausted)
      in case Score (e_ml e) ctx0 fv of
           Panics \<Rightarrow> (Panics, w1)
         | Returns (score, modelVer, _) \<Rightarrow>
             (let (sw, w2) =
                (if f_gt score (float32 (ScoreBlockThreshold (e_cfg e))) \<or> bucketExhausted then
                   (case iface_Add (e_blocklist e) ip (w_map w1) of
                      (Panics, m) \<Rightarrow> (Panics, w1\<lparr> w_map := m \<rparr>)
                    | (Returns err, m) \<Rightarrow>
                        (Returns \<lparr> dec_Action = ActionBlock, dec_RetryAfter = 0 \<rparr>,
                         go (TaskBlocked ip) (w1\<lparr> w_map := m \<rparr>)))
                 else if f_gt score (float32 (ScoreThrottleThreshold (e_cfg e))) then
                   (let retryAfter = int_of_float oob (mul32 (mul32 score (Fin 2)) (Fin 60));
                        retryAfter = (if retryAfter < 1 then 1 else retryAfter)
                    in (Returns \<lparr> dec_Action = ActionThrottle, dec_RetryAfter = retryAfter \<rparr>, w1))
                 else (Returns \<lparr> dec_Action = ActionAllow, dec_RetryAfter = 0 \<rparr>, w1))
              in case sw of
                   Panics \<Rightarrow> (Panics, w2)
                 | Returns decision \<Rightarrow>
                     (Returns decision,
                      go (TaskDecision
                            \<lparr> evt_IP = ip, evt_Score = score,
                              evt_Action = action_string (dec_Action decision),
                              evt_Timestamp = now, evt_FeatureVector = feature_json fv \<rparr>) w2)))"

subsection \<open>The engine for tests\<close>

record testEngine =
  t_cfg :: Config
  t_remaining :: int64
  t_score :: gofloat

type_synonym ReturnsRemaining = int64
type_synonym ReturnsScore = gofloat

definition NewForTesting :: "Config \<Rightarrow> ReturnsRemaining \<Rightarrow> ReturnsScore \<Rightarrow> testEngine" where
  "NewForTesting cfg remaining score = \<lparr> t_cfg = cfg, t_remaining = remaining, t_score = score \<rparr>"

definition test_Evaluate :: "(gofloat \<Rightarrow> int64) \<Rightarrow> testEngine \<Rightarrow> FeatureVector option \<Rightarrow> Decision" where
  "test_Evaluate oob e fv =
     (let bucketExhausted = sint (t_remaining e) < 0; score = t_score e
      in if f_gt score (float32 (ScoreBlockThreshold (t_cfg e))) \<or> bucketExhausted
         then \<lparr> dec_Action = ActionBlock, dec_RetryAfter = 0 \<rparr>
         else if f_gt score (float32 (ScoreThrottleThreshold (t_cfg e))) then
           (let retryAfter = int_of_float oob (mul32 (mul32 score (Fin 2)) (Fin 60));
                retryAfter = (if retryAfter < 1 then 1 else retryAfter)
            in \<lparr> dec_Action = ActionThrottle, dec_RetryAfter = retryAfter \<rparr>)
         else \<lparr> dec_Action = ActionAllow, dec_RetryAfter = 0 \<rparr>)"

subsection \<open>Goroutines\<close>

definition run_task :: "'k kafka \<Rightarrow> Producer \<Rightarrow> int \<Rightarrow> task \<Rightarrow> 'k \<Rightarrow> 'k" where
  "run_task K p now t k =
     (case t of TaskBlocked ip \<Rightarrow> PublishBlocked K p now ip k | TaskDecision evt \<Rightarrow> PublishDecision K p evt k)"

subsection \<open>The decision as a function of its inputs\<close>

text \<open>
  The policy the engine is meant to follow, as a table over the two facts it learns: whether
  the bucket refused the request and how anomalous it looks. Back-off is the score scaled to
  two minutes.
\<close>

definition backoff :: "(gofloat \<Rightarrow> int64) \<Rightarrow> gofloat \<Rightarrow> int" where
  "backoff oob score = max 1 (int_of_float oob (mul32 (mul32 score (Fin 2)) (Fin 60)))"

definition policy :: "(gofloat \<Rightarrow> int64) \<Rightarrow> Config \<Rightarrow> bool \<Rightarrow> gofloat \<Rightarrow> Decision" where
  "policy oob cfg refused score =
     (if refused \<or> f_gt score (float32 (ScoreBlockThreshold cfg)) then \<lparr> dec_Action = ActionBlock, dec_RetryAfter = 0 \<rparr>
      else if f_gt score (float32 (ScoreThrottleThreshold cfg))
      then \<lparr> dec_Action = ActionThrottle, dec_RetryAfter = backoff oob score \<rparr>
      else \<lparr> dec_Action = ActionAllow, dec_RetryAfter = 0 \<rparr>)"

definition decision_event :: "int \<Rightarrow> FeatureVector option \<Rightarrow> gofloat \<Rightarrow> Decision \<Rightarrow> DecisionEvent" where
  "decision_event now fv score d =
     \<lparr> evt_IP = GetClientIp fv, evt_Score = score, evt_Action = action_string (dec_Action d),
       evt_Timestamp = now, evt_FeatureVector = feature_json fv \<rparr>"

text \<open>What a call leaves behind, given the bucket's answer, the score and the decision.\<close>

definition aftermath ::
    "('e, 'b, 'm) Engine \<Rightarrow> int \<Rightarrow> FeatureVector option \<Rightarrow> gofloat \<Rightarrow> Decision \<Rightarrow> 'r
     \<Rightarrow> ('r, 'm) world \<Rightarrow> ('r, 'm) world" where
  "aftermath e now fv score d r w =
     (if dec_Action d = ActionBlock
      then w\<lparr> w_redis := r, w_map := snd (iface_Add (e_blocklist e) (GetClientIp fv) (w_map w)),
              w_tasks := w_tasks w @ [TaskBlocked (GetClientIp fv), TaskDecision (decision_event now fv score d)] \<rparr>
      else w\<lparr> w_redis := r, w_tasks := w_tasks w @ [TaskDecision (decision_event now fv score d)] \<rparr>)"

lemma policy_Action:
  "dec_Action (policy oob cfg refused score) = ActionBlock \<longleftrightarrow>
     refused \<or> f_gt score (float32 (ScoreBlockThreshold cfg))"
  "dec_Action (policy oob cfg refused score) = ActionThrottle \<longleftrightarrow>
     \<not> refused \<and> \<not> f_gt score (float32 (ScoreBlockThreshold cfg)) \<and> f_gt score (float32 (ScoreThrottleThreshold cfg))"
  "dec_Action (policy oob cfg refused score) = ActionAllow \<longleftrightarrow>
     \<not> refused \<and> \<not> f_gt score (float32 (ScoreBlockThreshold cfg)) \<and> \<not> f_gt score (float32 (ScoreThrottleThreshold cfg))"
  by (auto simp: policy_def)

lemma policy_RetryAfter:
  "dec_RetryAfter (policy oob cfg refused score) =
     (if dec_Action (policy oob cfg refused score) = ActionThrottle then backoff oob score else 0)"
  by (simp add: policy_def)

lemma test_Evaluate_policy:
  "test_Evaluate oob (NewForTesting cfg remaining score) fv = policy oob cfg (sint remaining < 0) score"
  by (auto simp: test_Evaluate_def NewForTesting_def policy_def backoff_def Let_def)

text \<open>
  Every call that gets a score and whose block list does not panic follows the policy, with
  a Redis error counting as a bucket that did not refuse.
\<close>

lemma Evaluate_policy:
  assumes dec: "Decrement R oob net (e_redis e) (GetClientIp fv) (w_redis w) = ((remaining, err), r)"
    and sc: "Score (e_ml e) ctx0 fv = Returns (score, ver, serr)"
  defines "d \<equiv> policy oob (e_cfg e) (err = None \<and> remaining < 0) score"
  assumes bl: "dec_Action d = ActionBlock \<Longrightarrow> fst (iface_Add (e_blocklist e) (GetClientIp fv) (w_map w)) \<noteq> Panics"
  shows "Evaluate R oob net now e ctx0 fv w = (Returns d, aftermath e now fv score d r w)"
proof (cases "dec_Action d = ActionBlock")
  case True
  then have "err = None \<and> remaining < 0 \<or> f_gt score (float32 (ScoreBlockThreshold (e_cfg e)))"
    by (simp add: d_def policy_Action)
  moreover obtain x m where "iface_Add (e_blocklist e) (GetClientIp fv) (w_map w) = (Returns x, m)"
    using bl [OF True] by (metis outcome.exhaust prod.collapse)
  ultimately show ?thesis using dec sc
    by (cases err) (auto simp: Evaluate_def d_def policy_def aftermath_def decision_event_def go_def Let_def)
next
  case False
  then have "\<not> (err = None \<and> remaining < 0) \<and> \<not> f_gt score (float32 (ScoreBlockThreshold (e_cfg e)))"
    by (simp add: d_def policy_Action)
  with dec sc show ?thesis
    by (cases err)
      (auto simp: Evaluate_def d_def policy_def aftermath_def decision_event_def backoff_def go_def Let_def)
qed

lemma Evaluate_nil_ml:
  assumes "e_ml e = None"
  shows "Evaluate R oob net now e ctx0 fv w =
     (Panics, w\<lparr> w_redis := snd (Decrement R oob net (e_redis e) (GetClientIp fv) (w_redis w)) \<rparr>)"
proof -
  obtain a err r where "Decrement R oob net (e_redis e) (GetClientIp fv) (w_redis w) = ((a, err), r)"
    by (metis prod.exhaust)
  moreover have "Score (e_ml e) ctx0 fv = Panics" using assms by (simp add: Score_panics_iff)
  ultimately show ?thesis by (simp add: Evaluate_def)
qed

subsection \<open>Back-off\<close>

lemma mul32_small:
  assumes "\<bar>x * y\<bar> \<le> 1000000"
  shows "mul32 (Fin x) (Fin y) = Fin (rnd 24 (- 149) (x * y))"
proof -
  have "(1000000 :: rat) \<le> pow2 127" by (simp add: pow2_def)
  with assms show ?thesis by (simp add: f32_of_rat_small)
qed

definition scaled :: "rat \<Rightarrow> rat" where
  "scaled x = rnd 24 (- 149) (rnd 24 (- 149) (x * 2) * 60)"

lemma rnd32_int: "\<bar>n\<bar> < 16777216 \<Longrightarrow> rnd 24 (- 149) (of_int n) = of_int n"
  by (rule rnd_of_int) simp_all

lemma rnd32_double:
  assumes "0 \<le> x" "x \<le> 1"
  shows "0 \<le> rnd 24 (- 149) (x * 2)" "rnd 24 (- 149) (x * 2) \<le> 2"
  using assms rnd_mono [of "x * 2" 2 24 "- 149"] rnd32_int [of 2] by (auto intro: rnd_nonneg)

lemma scaled_mul32:
  assumes "0 \<le> x" "x \<le> 1"
  shows "mul32 (mul32 (Fin x) (Fin 2)) (Fin 60) = Fin (scaled x)"
  using assms rnd32_double [OF assms] by (simp add: mul32_small scaled_def del: mul32.simps)

lemma scaled_bounds:
  assumes "0 \<le> x" "x \<le> 1"
  shows "0 \<le> scaled x" "scaled x \<le> 120"
  using rnd32_double [OF assms] rnd_mono [of "rnd 24 (- 149) (x * 2) * 60" 120 24 "- 149"] rnd32_int [of 120]
  by (auto simp: scaled_def intro: rnd_nonneg)

lemma scaled_mono: "x \<le> y \<Longrightarrow> scaled x \<le> scaled y"
  unfolding scaled_def by (intro rnd_mono mult_right_mono) simp_all

lemma trunc_scaled:
  assumes "0 \<le> x" "x \<le> 1"
  shows "0 \<le> trunc (scaled x)" "trunc (scaled x) \<le> 120"
  using trunc_mono [OF scaled_bounds(1) [OF assms]] trunc_mono [OF scaled_bounds(2) [OF assms]]
    trunc_of_int [of 0] trunc_of_int [of 120] by simp_all

lemma backoff_scaled:
  assumes "0 \<le> x" "x \<le> 1"
  shows "backoff oob (Fin x) = max 1 (trunc (scaled x))"
  using trunc_scaled [OF assms] by (simp add: backoff_def scaled_mul32 [OF assms] fits_int64_iff del: mul32.simps)

subsection \<open>The engine over a bucket service\<close>

lemma aftermath_sel [simp]:
  "w_redis (aftermath e now fv score d r w) = r"
  "dec_Action d \<noteq> ActionBlock \<Longrightarrow> w_map (aftermath e now fv score d r w) = w_map w"
  "dec_Action d = ActionBlock \<Longrightarrow>
     w_map (aftermath e now fv score d r w) = snd (iface_Add (e_blocklist e) (GetClientIp fv) (w_map w))"
  by (simp_all add: aftermath_def)

context bucket_client
begin

lemma Evaluate_bucket:
  assumes ok: "buckets_ok entry c (w_redis w)" and e: "e_redis e = c"
    and sc: "Score (e_ml e) ctx0 fv = Returns (score, ver, serr)"
    and bl: "fst (iface_Add (e_blocklist e) (GetClientIp fv) (w_map w)) \<noteq> Panics"
  defines "sp \<equiv> spec_decrement (cap c) (ttl_arg oob c) (now (w_redis w)) (buckets entry (w_redis w) (GetClientIp fv))"
  defines "d \<equiv> policy oob (e_cfg e) (fst sp < 0) score"
  shows "\<exists>r. Evaluate R oob Delivered tm e ctx0 fv w = (Returns d, aftermath e tm fv score d r w)
      \<and> buckets entry r = (buckets entry (w_redis w))(GetClientIp fv := snd sp) \<and> buckets_ok entry c r"
proof -
  obtain r where dec: "Decrement R oob Delivered (e_redis e) (GetClientIp fv) (w_redis w) = ((fst sp, None), r)"
    using svc.decrement_reply [OF ok, of "GetClientIp fv"] e by (metis prod.collapse sp_def)
  have "Evaluate R oob Delivered tm e ctx0 fv w = (Returns d, aftermath e tm fv score d r w)"
    using Evaluate_policy [OF dec sc bl] by (simp add: d_def)
  moreover have "buckets entry r = (buckets entry (w_redis w))(GetClientIp fv := snd sp)" "buckets_ok entry c r"
    using svc.decrement_bucket [OF ok, of "GetClientIp fv"] svc.decrement_ok [OF ok, of "GetClientIp fv"] dec e
    by (simp_all add: sp_def)
  ultimately show ?thesis by blast
qed

end

text \<open>What \<open>Decrement\<close> returns is a 64-bit number, and zero with every error.\<close>

lemma int_of_float_fits: "fits_int64 (int_of_float oob f)"
  by (cases f) simp_all

lemma Decrement_range:
  assumes "Decrement R oob net c ip s = ((remaining, err), s')"
  shows "fits_int64 remaining" "err \<noteq> None \<Longrightarrow> remaining = 0"
  using assms int_of_float_fits
  by (auto simp: Decrement_def fits_int64_iff split: transport.splits prod.splits sum.splits)

lemma Evaluate_retry_fits:
  "fst (Evaluate R oob net now e ctx0 fv w) = Returns d \<Longrightarrow> fits_int64 (dec_RetryAfter d)"
  using int_of_float_fits
  by (auto simp: Evaluate_def Let_def fits_int64_iff split: prod.splits outcome.splits if_splits)

subsection \<open>A concrete engine\<close>

text \<open>
  Default settings, a sidecar that always answers the same score, the reference Redis and
  a block map of the size the block list expects: the parts the witnesses run on.
\<close>

definition default_config :: Config where
  "default_config = Load Map.empty"

definition sample_conn :: "gofloat \<Rightarrow> string ClientConn" where
  "sample_conn s = \<lparr> Invoke = (\<lambda>ctx0 method fv out. Inr \<lparr> AnomalyScore = s, ModelVersion = ''v1'' \<rparr>), conn_Close = None \<rparr>"

definition sample_engine :: "gofloat \<Rightarrow> (string, bl_error, lru) Engine" where
  "sample_engine s = engine_New default_config default_client
     (Some \<lparr> conn = sample_conn s, scorer = NewMLScorerClient (sample_conn s) \<rparr>)
     (kafka_New [''localhost:9092'']) (blocklist_of (lru_bpf True) open_blocklist)"

definition sample_fv :: "FeatureVector option" where
  "sample_fv = Some \<lparr> ClientIp = ''10.0.0.1'', Ja3Hash = ''none'', UserAgentHash = ''ua'', ReqRate_1S = Fin 1,
     ReqRate_10S = Fin 1, ReqRate_60S = Fin 1, HttpMethod = ''GET'', UriHash = ''u'', ContentLength = 0,
     HeaderCount = 3, IsHttp2 = 0, UnixTimestamp = 1700000000 \<rparr>"

definition sample_world :: "(server, lru) world" where
  "sample_world = \<lparr> w_redis = empty_server, w_map = new_lru 16 4 4, w_tasks = [] \<rparr>"

lemma sample_sel [simp]:
  "e_redis (sample_engine s) = default_client" "e_cfg (sample_engine s) = default_config"
  "e_blocklist (sample_engine s) = blocklist_of (lru_bpf True) open_blocklist"
  "w_redis sample_world = empty_server" "w_map sample_world = new_lru 16 4 4" "w_tasks sample_world = []"
  "GetClientIp sample_fv = ''10.0.0.1''" "e_ml (sample_engine s) \<noteq> None"
  by (simp_all add: sample_engine_def engine_New_def sample_world_def sample_fv_def)

lemma sample_score [simp]: "Score (e_ml (sample_engine s)) ctx0 fv = Returns (s, ''v1'', None)"
  by (simp add: sample_engine_def engine_New_def Score_def mLScorerClient_Score_def NewMLScorerClient_def sample_conn_def)

lemma blocklist_of_total [simp]: "fst (iface_Add (blocklist_of B b) ip m) \<noteq> Panics"
  by (simp add: blocklist_of_def Add_total)

lemma sample_decrement: "\<exists>r. Decrement reference_redis no_oob Delivered default_client ip empty_server = ((99, None), r)"
  using default_bucket.svc.decrement_reply [of empty_server ip]
  by (cases "Decrement reference_redis no_oob Delivered default_client ip empty_server") simp

subsection \<open>Properties\<close>

text \<open>The default thresholds 0.85 and 0.60, through \<^verbatim>\<open>float64\<close> to \<^verbatim>\<open>float32\<close>.\<close>

lemma float32_thresholds:
  "float32 (f64_of_rat (85 / 100)) = Fin (14260634 / 16777216)"
  "float32 (f64_of_rat (60 / 100)) = Fin (10066330 / 16777216)"
proof -
  have r: "rnd 53 (- 1074) (85 / 100) = 7656119366529843 / 9007199254740992"
    "rnd 53 (- 1074) (60 / 100) = 5404319552844595 / 9007199254740992"
    by code_simp+
  have f: "f32_of_rat (7656119366529843 / 9007199254740992) = Fin (14260634 / 16777216)"
    "f32_of_rat (5404319552844595 / 9007199254740992) = Fin (10066330 / 16777216)"
    by code_simp+
  have "f64_of_rat (85 / 100) = Fin (7656119366529843 / 9007199254740992)"
    "f64_of_rat (60 / 100) = Fin (5404319552844595 / 9007199254740992)"
    unfolding r [symmetric] by (rule f64_unit, simp)+
  then show "float32 (f64_of_rat (85 / 100)) = Fin (14260634 / 16777216)"
    "float32 (f64_of_rat (60 / 100)) = Fin (10066330 / 16777216)"
    using f by simp_all
qed

lemma default_thresholds [simp]:
  "ScoreBlockThreshold default_config = f64_of_rat (85 / 100)"
  "ScoreThrottleThreshold default_config = f64_of_rat (60 / 100)"
  by (simp_all add: default_config_def Load_def getEnvFloat_def Getenv_def)

text \<open>
  C25. The test engine stands for the real one: whenever the real engine gets an answer from
  Redis and a score, it decides as the test engine built from that answer and that score
  (zero tokens left, that is not exhausted, when Redis failed).
\<close>

theorem test_engine_agrees:
  assumes "Decrement R oob net (e_redis e) (GetClientIp fv) (w_redis w) = ((remaining, err), r)"
    and "Score (e_ml e) ctx0 fv = Returns (score, ver, serr)"
    and "fst (iface_Add (e_blocklist e) (GetClientIp fv) (w_map w)) \<noteq> Panics"
  shows "fst (Evaluate R oob net now e ctx0 fv w) =
     Returns (test_Evaluate oob (NewForTesting (e_cfg e) (of_int remaining) score) fv)"
proof -
  have "sint (of_int remaining :: int64) < 0 \<longleftrightarrow> err = None \<and> remaining < 0"
    using Decrement_range [OF assms(1)] by (cases err) simp_all
  then show ?thesis using Evaluate_policy [OF assms(1,2,3)] by (simp add: test_Evaluate_policy)
qed

theorem test_engine_agrees_witness:
  "fst (Evaluate reference_redis no_oob Delivered 0 (sample_engine (Fin (3 / 4))) Background sample_fv sample_world) =
   Returns (test_Evaluate no_oob (NewForTesting default_config 99 (Fin (3 / 4))) sample_fv)"
proof -
  obtain r where "Decrement reference_redis no_oob Delivered default_client ''10.0.0.1'' empty_server = ((99, None), r)"
    using sample_decrement by blast
  then show ?thesis
    using test_engine_agrees [of reference_redis no_oob Delivered "sample_engine (Fin (3 / 4))" sample_fv sample_world
        99 None r Background "Fin (3 / 4)" "''v1''" None 0] by simp
qed

text \<open>
  The back-off of a throttled request is between one second and two minutes for every score
  in the unit interval, whatever the thresholds; the other decisions carry no back-off.
\<close>

lemma retry_after_bounds:
  fixes fv :: "FeatureVector option" and remaining :: int64 and cfg :: Config and oob :: "gofloat \<Rightarrow> int64"
  assumes "0 \<le> x" "x \<le> 1"
  defines "d \<equiv> test_Evaluate oob (NewForTesting cfg remaining (Fin x)) fv"
  shows "(dec_RetryAfter d = 0) = (dec_Action d \<noteq> ActionThrottle) \<and> 0 \<le> dec_RetryAfter d \<and> dec_RetryAfter d \<le> 120"
  using trunc_scaled [OF assms(1,2)]
  by (simp add: d_def test_Evaluate_policy policy_RetryAfter backoff_scaled [OF assms(1,2)] max_def)

text \<open>Among throttled requests, a higher score never gets a shorter back-off.\<close>

lemma retry_after_mono:
  assumes "0 \<le> x" "x \<le> y" "y \<le> 1"
    and "test_Evaluate oob (NewForTesting cfg remaining (Fin x)) fv = \<lparr> dec_Action = ActionThrottle, dec_RetryAfter = a \<rparr>"
    and "test_Evaluate oob (NewForTesting cfg remaining (Fin y)) fv = \<lparr> dec_Action = ActionThrottle, dec_RetryAfter = b \<rparr>"
  shows "a \<le> b"
proof -
  have x: "a = backoff oob (Fin x)" and y: "b = backoff oob (Fin y)"
    using assms(4,5) policy_RetryAfter [of oob cfg "sint remaining < 0"] unfolding test_Evaluate_policy
    by (metis Decision.select_convs)+
  have "scaled x \<le> scaled y" using assms(2) by (rule scaled_mono)
  from trunc_mono [OF this] show ?thesis
    unfolding x y using backoff_scaled [of x oob] backoff_scaled [of y oob] assms(1,2,3) by simp
qed

definition score32 :: "rat \<Rightarrow> gofloat" where
  "score32 x = f32_of_rat x"

text \<open>
  With the default thresholds, the score 0.70 is throttled for 84 seconds and 0.86 is
  blocked, in \<^verbatim>\<open>float32\<close> arithmetic.
\<close>

lemma retry_after_example:
  "test_Evaluate oob (NewForTesting default_config 10 (score32 (70 / 100))) fv =
     \<lparr> dec_Action = ActionThrottle, dec_RetryAfter = 84 \<rparr> \<and>
   test_Evaluate oob (NewForTesting default_config 10 (score32 (86 / 100))) fv =
     \<lparr> dec_Action = ActionBlock, dec_RetryAfter = 0 \<rparr>"
proof -
  have "f_gt (score32 (86 / 100)) (Fin (14260634 / 16777216))"
    "\<not> f_gt (score32 (70 / 100)) (Fin (14260634 / 16777216))"
    "f_gt (score32 (70 / 100)) (Fin (10066330 / 16777216))"
    by code_simp+
  moreover have "mul32 (mul32 (score32 (70 / 100)) (Fin 2)) (Fin 60) = Fin 84" by code_simp
  then have "backoff oob (score32 (70 / 100)) = 84"
    using trunc_of_int [of 84] by (simp add: backoff_def fits_int64_iff)
  ultimately show ?thesis unfolding test_Evaluate_policy policy_def default_thresholds float32_thresholds by simp
qed

text \<open>
  A block threshold that is not a number (the environment variable accepts \<^verbatim>\<open>NaN\<close>) is never
  exceeded: only an exhausted bucket blocks then, whatever the score.
\<close>

lemma nan_threshold_never_blocks:
  assumes "env ''SCORE_BLOCK_THRESHOLD'' = Some ''NaN''"
  shows "dec_Action (test_Evaluate oob (NewForTesting (Load env) remaining score) fv) = ActionBlock \<longleftrightarrow>
     sint remaining < 0"
proof -
  have "ParseFloat ''NaN'' = Inr NaN" by code_simp
  then have "ScoreBlockThreshold (Load env) = NaN"
    using assms by (simp add: Load_def getEnvFloat_def Getenv_def)
  then show ?thesis by (simp add: test_Evaluate_policy policy_Action)
qed

end
