(* ===== verification/Concurrency.thy ===== *)
theory Concurrency
  imports Engine
begin

text \<open>
  The engine under load: \<^verbatim>\<open>main.go\<close> runs one goroutine per connection, so many calls of
  \<open>Evaluate\<close> are in flight at once. A call is cut into its atomic actions (one Redis script,
  one gRPC call, one decision with its map update); the actions of different calls, the publishing
  goroutines and the passing of time interleave freely. Running the actions of one call back
  to back is \<open>Evaluate\<close>.
\<close>

subsection \<open>Calls in flight\<close>

datatype phase =
    Arrived "FeatureVector option"
  | Bucketed "FeatureVector option" bool  \<comment> \<open>is the bucket exhausted?\<close>
  | Scored "FeatureVector option" bool gofloat
  | Finished "FeatureVector option" Decision
  | Crashed

fun advance ::
    "'r redis \<Rightarrow> (gofloat \<Rightarrow> int64) \<Rightarrow> transport \<Rightarrow> int \<Rightarrow> ('e, 'b, 'm) Engine \<Rightarrow> ctx
     \<Rightarrow> phase \<Rightarrow> ('r, 'm) world \<Rightarrow> phase \<times> ('r, 'm) world" where
  "advance R oob net now e ctx0 (Arrived fv) w =
     (let ((remaining, err), r) = Decrement R oob net (e_redis e) (GetClientIp fv) (w_redis w)
      in (Bucketed fv (err = None \<and> remaining < 0), w\<lparr> w_redis := r \<rparr>))"
| "advance R oob net now e ctx0 (Bucketed fv ex) w =
     (case Score (e_ml e) ctx0 fv of
        Panics \<Rightarrow> (Crashed, w)
      | Returns (score, _, _) \<Rightarrow> (Scored fv ex score, w))"
| "advance R oob net now e ctx0 (Scored fv ex score) w =
     (let d = policy oob (e_cfg e) ex score
      in if dec_Action d = ActionBlock
         then (case iface_Add (e_blocklist e) (GetClientIp fv) (w_map w) of
                 (Panics, m) \<Rightarrow> (Crashed, w\<lparr> w_map := m \<rparr>)
               | (Returns _, m) \<Rightarrow> (Finished fv d, aftermath e now fv score d (w_redis w) w))
         else (Finished fv d, aftermath e now fv score d (w_redis w) w))"
| "advance R oob net now e ctx0 (Finished fv d) w = (Finished fv d, w)"
| "advance R oob net now e ctx0 Crashed w = (Crashed, w)"

fun result :: "phase \<Rightarrow> Decision outcome" where
  "result (Finished fv d) = Returns d"
| "result p = Panics"

lemma advance_Scored:
  assumes "advance R oob net now e ctx0 (Scored fv ex score) w = (p, w')"
  defines "d \<equiv> policy oob (e_cfg e) ex score"
  shows "p = Finished fv d \<and> w' = aftermath e now fv score d (w_redis w) w
       \<and> (dec_Action d = ActionBlock \<longrightarrow> fst (iface_Add (e_blocklist e) (GetClientIp fv) (w_map w)) \<noteq> Panics)
     \<or> p = Crashed \<and> (\<exists>m. w' = w\<lparr> w_map := m \<rparr> \<and> dec_Action d = ActionBlock
            \<and> iface_Add (e_blocklist e) (GetClientIp fv) (w_map w) = (Panics, m))"
  using assms(1)
  by (cases "iface_Add (e_blocklist e) (GetClientIp fv) (w_map w)"; cases "dec_Action d = ActionBlock")
    (auto simp: d_def [symmetric] Let_def split: outcome.splits)

lemma aftermath_redis: "aftermath e now fv score d r (w\<lparr> w_redis := r' \<rparr>) = aftermath e now fv score d r w"
  by (simp add: aftermath_def)

text \<open>The three actions of a call in a row are the call.\<close>

lemma advance_Evaluate:
  assumes "advance R oob net now e ctx0 (Arrived fv) w0 = (p1, w1)"
    and "advance R oob net now e ctx0 p1 w1 = (p2, w2)"
    and "advance R oob net now e ctx0 p2 w2 = (p3, w3)"
  shows "Evaluate R oob net now e ctx0 fv w0 = (result p3, w3)"
proof -
  obtain rem err r where dec: "Decrement R oob net (e_redis e) (GetClientIp fv) (w_redis w0) = ((rem, err), r)"
    by (metis prod.exhaust)
  let ?ex = "err = None \<and> rem < 0"
  have 1: "p1 = Bucketed fv ?ex" "w1 = w0\<lparr> w_redis := r \<rparr>" using assms(1) dec by simp_all
  show ?thesis
  proof (cases "Score (e_ml e) ctx0 fv")
    case Panics
    then have "e_ml e = None" by (simp add: Score_panics_iff)
    with 1 Panics assms(2,3) dec show ?thesis by (auto simp: Evaluate_nil_ml)
  next
    case (Returns t)
    obtain score ver serr where t: "t = (score, ver, serr)" by (cases t)
    note sc = Returns [unfolded t]
    have 2: "p2 = Scored fv ?ex score" "w2 = w1" using assms(2) 1 sc by simp_all
    let ?d = "policy oob (e_cfg e) ?ex score"
    from advance_Scored [OF assms(3) [unfolded 2 1]] show ?thesis
    proof (elim disjE conjE exE)
      assume "p3 = Finished fv ?d" "w3 = aftermath e now fv score ?d (w_redis (w0\<lparr> w_redis := r \<rparr>)) (w0\<lparr> w_redis := r \<rparr>)"
        "dec_Action ?d = ActionBlock \<longrightarrow>
           fst (iface_Add (e_blocklist e) (GetClientIp fv) (w_map (w0\<lparr> w_redis := r \<rparr>))) \<noteq> Panics"
      then show ?thesis using Evaluate_policy [OF dec sc] by (simp add: aftermath_redis)
    next
      fix m assume m: "p3 = Crashed" "w3 = w0\<lparr> w_redis := r, w_map := m \<rparr>" "dec_Action ?d = ActionBlock"
        "iface_Add (e_blocklist e) (GetClientIp fv) (w_map (w0\<lparr> w_redis := r \<rparr>)) = (Panics, m)"
      then have "?ex \<or> f_gt score (float32 (ScoreBlockThreshold (e_cfg e)))" by (simp add: policy_Action)
      with m dec sc show ?thesis by (cases err) (auto simp: Evaluate_def Let_def)
    qed
  qed
qed

subsection \<open>The system\<close>

record ('r, 'm, 'k) system =
  sy_world :: "('r, 'm) world"
  sy_threads :: "phase list"
  sy_kafka :: 'k
  sy_published :: "task list"  \<comment> \<open>publishing goroutines that have run\<close>

definition set_redis :: "'r \<Rightarrow> ('r, 'm, 'k) system \<Rightarrow> ('r, 'm, 'k) system" where
  "set_redis r s = s\<lparr> sy_world := (sy_world s)\<lparr> w_redis := r \<rparr> \<rparr>"

definition drop_task :: "nat \<Rightarrow> ('r, 'm) world \<Rightarrow> ('r, 'm) world" where
  "drop_task i w = w\<lparr> w_tasks := take i (w_tasks w) @ drop (Suc i) (w_tasks w) \<rparr>"

text \<open>
  \<open>nets\<close> are the fates a Redis call may meet, \<open>mls\<close> the scoring clients a call may find (the
  sidecar's answers change over time; \<open>None\<close> is a client that was never dialled).
\<close>

inductive sys_step ::
    "'r redis \<Rightarrow> (gofloat \<Rightarrow> int64) \<Rightarrow> ('e, 'b, 'm) Engine \<Rightarrow> (nat \<Rightarrow> 'r \<Rightarrow> 'r) \<Rightarrow> 'k kafka
     \<Rightarrow> transport set \<Rightarrow> 'e ml_Client option set \<Rightarrow> ('r, 'm, 'k) system \<Rightarrow> ('r, 'm, 'k) system \<Rightarrow> bool"
  for R oob e tick K nets mls where
  arrive: "sys_step R oob e tick K nets mls s (s\<lparr> sy_threads := sy_threads s @ [Arrived fv] \<rparr>)"
| act: "i < length (sy_threads s) \<Longrightarrow> net \<in> nets \<Longrightarrow> ml \<in> mls \<Longrightarrow>
     advance R oob net now (e\<lparr> e_ml := ml \<rparr>) ctx0 (sy_threads s ! i) (sy_world s) = (p, w) \<Longrightarrow>
     sys_step R oob e tick K nets mls s (s\<lparr> sy_threads := (sy_threads s)[i := p], sy_world := w \<rparr>)"
| publish: "i < length (w_tasks (sy_world s)) \<Longrightarrow> t = w_tasks (sy_world s) ! i \<Longrightarrow>
     sys_step R oob e tick K nets mls s
       (s\<lparr> sy_world := drop_task i (sy_world s), sy_kafka := run_task K (e_kafka e) now t (sy_kafka s),
          sy_published := sy_published s @ [t] \<rparr>)"
| pass: "sys_step R oob e tick K nets mls s (set_redis (tick d (w_redis (sy_world s))) s)"

subsection \<open>Counting\<close>

definition tally :: "('a \<Rightarrow> bool) \<Rightarrow> 'a list \<Rightarrow> nat" where
  "tally P xs = length (filter P xs)"

lemma tally_simps [simp]:
  "tally P [] = 0" "tally P (x # xs) = (if P x then Suc (tally P xs) else tally P xs)"
  "tally P (xs @ ys) = tally P xs + tally P ys"
  by (simp_all add: tally_def)

lemma tally_update:
  "i < length xs \<Longrightarrow>
   tally P (xs[i := y]) + (if P (xs ! i) then 1 else 0) = tally P xs + (if P y then 1 else 0)"
proof (induction xs arbitrary: i)
  case (Cons x xs)
  then show ?case by (cases i) auto
qed simp

lemma tally_remove:
  assumes "i < length xs"
  shows "tally P (take i xs @ drop (Suc i) xs) + (if P (xs ! i) then 1 else 0) = tally P xs"
proof -
  have "tally P xs = tally P (take i xs @ xs ! i # drop (Suc i) xs)" using id_take_nth_drop [OF assms] by simp
  then show ?thesis by simp
qed

subsection \<open>The audit trail\<close>

fun finished_as :: "string \<Rightarrow> Action \<Rightarrow> phase \<Rightarrow> bool" where
  "finished_as ip a (Finished fv d) \<longleftrightarrow> GetClientIp fv = ip \<and> dec_Action d = a"
| "finished_as ip a p \<longleftrightarrow> False"

fun reports :: "string \<Rightarrow> Action \<Rightarrow> task \<Rightarrow> bool" where
  "reports ip a (TaskDecision evt) \<longleftrightarrow> evt_IP evt = ip \<and> evt_Action evt = action_string a"
| "reports ip a (TaskBlocked ip') \<longleftrightarrow> False"

fun reports_block :: "string \<Rightarrow> task \<Rightarrow> bool" where
  "reports_block ip (TaskDecision evt) \<longleftrightarrow> False"
| "reports_block ip (TaskBlocked ip') \<longleftrightarrow> ip' = ip"

definition all_tasks :: "('r, 'm, 'k) system \<Rightarrow> task list" where
  "all_tasks s = w_tasks (sy_world s) @ sy_published s"

text \<open>Every decision has its event, and every block its notice; there are no others.\<close>

definition audited :: "('r, 'm, 'k) system \<Rightarrow> bool" where
  "audited s \<longleftrightarrow> (\<forall>ip.
     (\<forall>a. tally (reports ip a) (all_tasks s) = tally (finished_as ip a) (sy_threads s)) \<and>
     tally (reports_block ip) (all_tasks s) = tally (finished_as ip ActionBlock) (sy_threads s))"

lemma action_string_inj [simp]: "action_string a = action_string b \<longleftrightarrow> a = b"
  by (cases a; cases b) simp_all

lemma block_string [simp]: "''block'' = action_string a \<longleftrightarrow> a = ActionBlock"
  by (cases a) simp_all

definition step_balanced :: "phase \<Rightarrow> ('r, 'm) world \<Rightarrow> phase \<Rightarrow> ('r, 'm) world \<Rightarrow> bool" where
  "step_balanced p w p' w' \<longleftrightarrow> (\<forall>ip.
     (\<forall>a. tally (reports ip a) (w_tasks w') + (if finished_as ip a p then 1 else 0) =
          tally (reports ip a) (w_tasks w) + (if finished_as ip a p' then 1 else 0)) \<and>
     tally (reports_block ip) (w_tasks w') + (if finished_as ip ActionBlock p then 1 else 0) =
     tally (reports_block ip) (w_tasks w) + (if finished_as ip ActionBlock p' then 1 else 0))"

lemma advance_balanced:
  assumes "advance R oob net now e ctx0 p w = (p', w')"
  shows "step_balanced p w p' w'"
proof (cases p)
  case (Scored fv ex score)
  from advance_Scored [OF assms [unfolded Scored]] show ?thesis
    unfolding Scored by (auto simp: step_balanced_def aftermath_def decision_event_def)
qed (use assms in \<open>auto simp: step_balanced_def split: prod.splits outcome.splits\<close>)

lemma audited_step:
  assumes "sys_step R oob e tick K nets mls s s'" "audited s"
  shows "audited s'"
  using assms
proof (induction rule: sys_step.induct)
  case (act i s net ml now ctx0 p w)
  note bal = advance_balanced [OF act.hyps(4), unfolded step_balanced_def, rule_format]
  note aud = act.prems [unfolded audited_def all_tasks_def tally_simps, rule_format]
  note upd = tally_update [OF act.hyps(1), of _ p]
  show ?case unfolding audited_def all_tasks_def tally_simps
  proof (intro allI conjI)
    fix ip a
    show "tally (reports ip a) (w_tasks (sy_world (s\<lparr>sy_threads := (sy_threads s)[i := p], sy_world := w\<rparr>))) +
        tally (reports ip a) (sy_published (s\<lparr>sy_threads := (sy_threads s)[i := p], sy_world := w\<rparr>)) =
        tally (finished_as ip a) (sy_threads (s\<lparr>sy_threads := (sy_threads s)[i := p], sy_world := w\<rparr>))"
      using bal [THEN conjunct1, rule_format, of ip a] aud [THEN conjunct1, rule_format, of ip a] upd [of "finished_as ip a"] by simp
  next
    fix ip
    show "tally (reports_block ip) (w_tasks (sy_world (s\<lparr>sy_threads := (sy_threads s)[i := p], sy_world := w\<rparr>))) +
        tally (reports_block ip) (sy_published (s\<lparr>sy_threads := (sy_threads s)[i := p], sy_world := w\<rparr>)) =
        tally (finished_as ip ActionBlock) (sy_threads (s\<lparr>sy_threads := (sy_threads s)[i := p], sy_world := w\<rparr>))"
      using bal [THEN conjunct2, of ip] aud [THEN conjunct2, of ip] upd [of "finished_as ip ActionBlock"] by simp
  qed
next
  case (publish i s t now)
  have "tally P (all_tasks (s\<lparr> sy_world := drop_task i (sy_world s),
      sy_kafka := run_task K (e_kafka e) now t (sy_kafka s), sy_published := sy_published s @ [t] \<rparr>)) =
      tally P (all_tasks s)" for P
    using tally_remove [OF publish.hyps(1), of P] publish.hyps(2)
    by (cases "P t") (simp_all add: all_tasks_def drop_task_def)
  with publish.prems show ?case by (simp add: audited_def)
qed (auto simp: audited_def all_tasks_def set_redis_def)

subsection \<open>The limit under interleaving\<close>

text \<open>Calls of \<open>ip\<close> that hold a token: let through by the bucket and not blocked since.\<close>

fun holds_token :: "string \<Rightarrow> phase \<Rightarrow> bool" where
  "holds_token ip (Arrived fv) \<longleftrightarrow> False"
| "holds_token ip (Bucketed fv ex) \<longleftrightarrow> GetClientIp fv = ip \<and> \<not> ex"
| "holds_token ip (Scored fv ex score) \<longleftrightarrow> GetClientIp fv = ip \<and> \<not> ex"
| "holds_token ip (Finished fv d) \<longleftrightarrow> GetClientIp fv = ip \<and> dec_Action d \<noteq> ActionBlock"
| "holds_token ip Crashed \<longleftrightarrow> False"

lemma advance_after_bucket:
  assumes "advance R oob net now e ctx0 p w = (p', w')" "\<And>fv. p \<noteq> Arrived fv"
  shows "w_redis w' = w_redis w" "holds_token ip p' \<Longrightarrow> holds_token ip p"
proof -
  have "w_redis w' = w_redis w \<and> (holds_token ip p' \<longrightarrow> holds_token ip p)"
  proof (cases p)
    case (Scored fv ex score)
    from advance_Scored [OF assms(1) [unfolded Scored]] show ?thesis
      unfolding Scored by (auto simp: aftermath_def policy_Action)
  qed (use assms in \<open>auto split: outcome.splits\<close>)
  then show "w_redis w' = w_redis w" "holds_token ip p' \<Longrightarrow> holds_token ip p" by simp_all
qed

text \<open>
  The books of one client's bucket in a stretch of time that begins at \<open>t0\<close>: either no call
  holds a token, or the bucket is live for the whole stretch and accounts for all of them.
\<close>

definition balanced :: "int \<Rightarrow> int \<Rightarrow> int \<Rightarrow> int \<Rightarrow> nat \<Rightarrow> bucket \<Rightarrow> bool" where
  "balanced cp ttl t0 t n b \<longleftrightarrow> t0 \<le> t \<and> (t < t0 + 1000 * ttl \<longrightarrow>
     n = 0 \<or> (\<exists>k x. b = Some (k, x) \<and> t0 + 1000 * ttl \<le> x \<and> int n + max 0 k \<le> cp))"

lemma balanced_decrement:
  assumes "balanced cp ttl t0 t n b" "\<And>k x. b = Some (k, x) \<Longrightarrow> k \<le> cp - 1" "0 < ttl"
  shows "balanced cp ttl t0 t (if fst (spec_decrement cp ttl t b) < 0 then n else Suc n)
     (snd (spec_decrement cp ttl t b))"
  using assms by (cases "(cp, ttl, t, b)" rule: spec_decrement.cases) (auto simp: balanced_def)

lemma balanced_expire:
  "balanced cp ttl t0 t n b \<Longrightarrow> balanced cp ttl t0 (t + int d) n (expire (t + int d) b)"
  by (cases b) (auto simp: balanced_def)

lemma balanced_fewer: "balanced cp ttl t0 t n b \<Longrightarrow> m \<le> n \<Longrightarrow> balanced cp ttl t0 t m b"
  by (fastforce simp: balanced_def)

subsection \<open>A concrete run\<close>

text \<open>An idle system with the sample engine, and the same system after one request has arrived and taken its token.\<close>

definition idle :: "(server, lru, (string \<times> Message) list) system" where
  "idle = \<lparr> sy_world = sample_world, sy_threads = [], sy_kafka = [], sy_published = [] \<rparr>"

definition first_action :: "phase \<times> (server, lru) world" where
  "first_action = advance reference_redis no_oob Delivered 0 (sample_engine (Fin (1 / 2))) Background (Arrived sample_fv) sample_world"

definition one_in_flight :: "(server, lru, (string \<times> Message) list) system" where
  "one_in_flight = idle\<lparr> sy_threads := [fst first_action], sy_world := snd first_action \<rparr>"

abbreviation sample_steps :: "transport set \<Rightarrow> (server, lru, (string \<times> Message) list) system \<Rightarrow> (server, lru, (string \<times> Message) list) system \<Rightarrow> bool" where
  "sample_steps nets \<equiv> sys_step reference_redis no_oob (sample_engine (Fin (1 / 2))) srv_tick (broker_kafka (\<lambda>w msg. False)) nets UNIV"

lemma sample_run: "(sample_steps {Delivered})\<^sup>*\<^sup>* idle one_in_flight"
proof -
  let ?s = "idle\<lparr> sy_threads := sy_threads idle @ [Arrived sample_fv] \<rparr>"
  have "sample_steps {Delivered} idle ?s" by (rule sys_step.arrive)
  moreover have "sample_steps {Delivered} ?s (?s\<lparr> sy_threads := (sy_threads ?s)[0 := fst first_action], sy_world := snd first_action \<rparr>)"
  proof (rule sys_step.act)
    show "advance reference_redis no_oob Delivered 0 (sample_engine (Fin (1 / 2))\<lparr> e_ml := e_ml (sample_engine (Fin (1 / 2))) \<rparr>) Background
        (sy_threads ?s ! 0) (sy_world ?s) = (fst first_action, snd first_action)"
      by (simp add: first_action_def idle_def)
  qed (simp_all add: idle_def)
  ultimately show ?thesis by (simp add: one_in_flight_def idle_def)
qed

lemma idle_sel:
  "sy_world idle = sample_world" "sy_threads idle = []" "sy_published idle = []" "srv_clock empty_server = 0"
  by (simp_all add: idle_def empty_server_def)

lemma one_in_flight_clock: "srv_clock (w_redis (sy_world one_in_flight)) = 0"
proof -
  obtain r where r: "Decrement reference_redis no_oob Delivered default_client ''10.0.0.1'' empty_server = ((99, None), r)"
    using sample_decrement by blast
  have "srv_clock r = 0"
    using default_bucket.svc.decrement_clock [OF empty_server_ok, of "''10.0.0.1''"] r by (simp add: empty_server_def)
  with r show ?thesis by (simp add: one_in_flight_def first_action_def)
qed

subsection \<open>Properties\<close>

text \<open>Running the three actions of a call back to back is \<^verbatim>\<open>Evaluate\<close>, panics included.\<close>

lemma phases_are_evaluate:
  "let (p1, w1) = advance R oob net now e ctx0 (Arrived fv) w0;
       (p2, w2) = advance R oob net now e ctx0 p1 w1;
       (p3, w3) = advance R oob net now e ctx0 p2 w2
   in Evaluate R oob net now e ctx0 fv w0 = (result p3, w3)"
  using advance_Evaluate [of R oob net now e ctx0 fv w0] by (auto split: prod.splits)

subsection \<open>Draining\<close>

text \<open>
  The work left: a call that has arrived takes three actions, and its decision starts at most two
  publishing goroutines.
\<close>

fun work_left :: "phase \<Rightarrow> nat" where
  "work_left (Arrived fv) = 5"
| "work_left (Bucketed fv ex) = 4"
| "work_left (Scored fv ex score) = 3"
| "work_left (Finished fv d) = 0"
| "work_left Crashed = 0"

definition pending :: "('r, 'm, 'k) system \<Rightarrow> nat" where
  "pending s = sum_list (map work_left (sy_threads s)) + length (w_tasks (sy_world s))"

text \<open>The steps that do work: an action of an unfinished call, or a publishing goroutine.\<close>

inductive work_step ::
    "'r redis \<Rightarrow> (gofloat \<Rightarrow> int64) \<Rightarrow> ('e, 'b, 'm) Engine \<Rightarrow> 'k kafka
     \<Rightarrow> transport set \<Rightarrow> 'e ml_Client option set \<Rightarrow> ('r, 'm, 'k) system \<Rightarrow> ('r, 'm, 'k) system \<Rightarrow> bool"
  for R oob e K nets mls where
  work_act: "i < length (sy_threads s) \<Longrightarrow> 0 < work_left (sy_threads s ! i) \<Longrightarrow> net \<in> nets \<Longrightarrow> ml \<in> mls \<Longrightarrow>
     advance R oob net now (e\<lparr> e_ml := ml \<rparr>) ctx0 (sy_threads s ! i) (sy_world s) = (p, w) \<Longrightarrow>
     work_step R oob e K nets mls s (s\<lparr> sy_threads := (sy_threads s)[i := p], sy_world := w \<rparr>)"
| work_publish: "i < length (w_tasks (sy_world s)) \<Longrightarrow> t = w_tasks (sy_world s) ! i \<Longrightarrow>
     work_step R oob e K nets mls s
       (s\<lparr> sy_world := drop_task i (sy_world s), sy_kafka := run_task K (e_kafka e) now t (sy_kafka s),
          sy_published := sy_published s @ [t] \<rparr>)"

lemma work_is_sys_step: "work_step R oob e K nets mls s s' \<Longrightarrow> sys_step R oob e tick K nets mls s s'"
  by (induction rule: work_step.induct) (auto intro: sys_step.intros)

lemma advance_works:
  assumes "advance R oob net now e ctx0 p w = (p', w')" "0 < work_left p"
  shows "work_left p' + length (w_tasks w') < work_left p + length (w_tasks w)"
proof (cases p)
  case (Scored fv ex score)
  from advance_Scored [OF assms(1) [unfolded Scored]] show ?thesis
    unfolding Scored by (auto simp: aftermath_def)
qed (use assms in \<open>auto split: prod.splits outcome.splits\<close>)

lemma sum_list_update_le:
  fixes f :: "'a \<Rightarrow> nat"
  assumes "i < length xs"
  shows "sum_list (map f (xs[i := y])) + f (xs ! i) = sum_list (map f xs) + f y"
  using assms
proof (induction xs arbitrary: i)
  case (Cons x xs)
  then show ?case by (cases i) auto
qed simp

lemma work_step_decreases: "work_step R oob e K nets mls s s' \<Longrightarrow> pending s' < pending s"
proof (induction rule: work_step.induct)
  case (work_act i s net ml now ctx0 p w)
  from advance_works [OF work_act(5,2)] sum_list_update_le [OF work_act(1), of work_left p]
  show ?case by (simp add: pending_def)
qed (auto simp: pending_def drop_task_def)

lemma work_bounded: "(work_step R oob e K nets mls ^^ n) s s' \<Longrightarrow> n + pending s' \<le> pending s"
proof (induction n arbitrary: s')
  case (Suc n)
  then obtain t where "(work_step R oob e K nets mls ^^ n) s t" "work_step R oob e K nets mls t s'" by auto
  with Suc.IH [of t] work_step_decreases [of R oob e K nets mls t s'] show ?case by simp
qed simp

lemma work_threads: "work_step R oob e K nets mls s s' \<Longrightarrow> length (sy_threads s') = length (sy_threads s)"
  by (induction rule: work_step.induct) auto

lemma work_possible:
  assumes "net \<in> nets" "ml \<in> mls" "pending s \<noteq> 0"
  obtains s' where "work_step R oob e K nets mls s s'"
proof (cases "w_tasks (sy_world s) = []")
  case False
  then show ?thesis using that work_publish [of 0 s] by blast
next
  case True
  then obtain p where "p \<in> set (sy_threads s)" "0 < work_left p" using assms(3) by (auto simp: pending_def)
  then obtain i where "i < length (sy_threads s)" "0 < work_left (sy_threads s ! i)" by (metis in_set_conv_nth)
  then show ?thesis using that work_act [OF _ _ assms(1,2)] by (metis prod.exhaust)
qed

lemma drains:
  assumes "net \<in> nets" "ml \<in> mls"
  shows "\<exists>s'. (work_step R oob e K nets mls)\<^sup>*\<^sup>* s s' \<and> pending s' = 0 \<and> length (sy_threads s') = length (sy_threads s)"
proof (induction "pending s" arbitrary: s rule: less_induct)
  case less
  show ?case
  proof (cases "pending s = 0")
    case False
    then obtain t where t: "work_step R oob e K nets mls s t" by (rule work_possible [OF assms])
    from less [OF work_step_decreases [OF t]] t work_threads [OF t] show ?thesis
      by (metis (no_types, lifting) converse_rtranclp_into_rtranclp)
  qed auto
qed



end
