(* ===== verification/Node.thy ===== *)
theory Node
  imports Concurrency
begin

text \<open>
  The whole server process: \<^verbatim>\<open>main.go\<close> runs the calls of the Unix socket and, beside them, the HTTP server
  with the two handlers of \<^verbatim>\<open>blocklist.go\<close>, on the same kernel map. A step is a step of the calls in flight
  or one management request. The requests served so far are kept as a record of what was asked.
\<close>

datatype management = Blocked string | Unblocked string | Refused

record ('r, 'm, 'k) node =
  nd_system :: "('r, 'm, 'k) system"
  nd_managed :: "management list"

definition set_map :: "'m \<Rightarrow> ('r, 'm, 'k) system \<Rightarrow> ('r, 'm, 'k) system" where
  "set_map m s = s\<lparr> sy_world := (sy_world s)\<lparr> w_map := m \<rparr> \<rparr>"

lemma set_map_sel [simp]:
  "sy_threads (set_map m s) = sy_threads s" "w_redis (sy_world (set_map m s)) = w_redis (sy_world s)"
  "w_map (sy_world (set_map m s)) = m" "w_tasks (sy_world (set_map m s)) = w_tasks (sy_world s)"
  "sy_published (set_map m s) = sy_published s"
  by (simp_all add: set_map_def)

text \<open>\<open>H\<close> is what the handlers are given: the map library, the error texts, gin's binding and the block list.\<close>

record 'm http =
  h_bpf :: "'m bpf"
  h_show :: "bl_error \<Rightarrow> string"
  h_bind :: "string \<Rightarrow> string + string"
  h_list :: Blocklist

inductive node_step ::
    "'r redis \<Rightarrow> (gofloat \<Rightarrow> int64) \<Rightarrow> ('e, 'b, 'm) Engine \<Rightarrow> (nat \<Rightarrow> 'r \<Rightarrow> 'r) \<Rightarrow> 'k kafka
     \<Rightarrow> transport set \<Rightarrow> 'e ml_Client option set \<Rightarrow> 'm http \<Rightarrow> ('r, 'm, 'k) node \<Rightarrow> ('r, 'm, 'k) node \<Rightarrow> bool"
  for R oob e tick K nets mls H where
  work: "sys_step R oob e tick K nets mls (nd_system n) s \<Longrightarrow>
     node_step R oob e tick K nets mls H n (n\<lparr> nd_system := s \<rparr>)"
| block: "handleBlock (h_bpf H) (h_show H) (h_bind H) (h_list H) reqBody (w_map (sy_world (nd_system n))) = (Returns r, m) \<Longrightarrow>
     node_step R oob e tick K nets mls H n
       (n\<lparr> nd_system := set_map m (nd_system n),
          nd_managed := nd_managed n @ [case h_bind H reqBody of Inl err \<Rightarrow> Refused | Inr ip \<Rightarrow> Blocked ip] \<rparr>)"
| unblock: "handleUnblock (h_bpf H) (h_show H) (h_list H) ip (w_map (sy_world (nd_system n))) = (Returns r, m) \<Longrightarrow>
     node_step R oob e tick K nets mls H n
       (n\<lparr> nd_system := set_map m (nd_system n), nd_managed := nd_managed n @ [Unblocked ip] \<rparr>)"

inductive_cases node_stepE: "node_step R oob e tick K nets mls H n n'"

subsection \<open>Management leaves the books and the audit trail alone\<close>

lemma audited_set_map [simp]: "audited (set_map m s) = audited s"
  by (simp add: audited_def all_tasks_def)

lemma audited_node:
  assumes "(node_step R oob e tick K nets mls H)\<^sup>*\<^sup>* n0 n" "audited (nd_system n0)"
  shows "audited (nd_system n)"
  using assms by (induction rule: rtranclp_induct) (auto elim!: node_stepE intro: audited_step)

subsection \<open>Why an address is in the map\<close>

text \<open>
  An entry is explained by a call that finished with a block for its address, or by a management
  request that asked for it, or it was there before.
\<close>

definition explained :: "('m \<Rightarrow> byte list \<Rightarrow> byte list option) \<Rightarrow> 'm \<Rightarrow> ('r, 'm, 'k) node \<Rightarrow> byte list \<Rightarrow> bool" where
  "explained lookup m0 n k \<longleftrightarrow>
     lookup m0 k \<noteq> None \<or>
     (\<exists>fv d. Finished fv d \<in> set (sy_threads (nd_system n)) \<and> dec_Action d = ActionBlock \<and> ipToKey (GetClientIp fv) = Returns (Inr k)) \<or>
     (\<exists>ip. Blocked ip \<in> set (nd_managed n) \<and> ipToKey ip = Returns (Inr k))"

definition map_explained :: "('m \<Rightarrow> byte list \<Rightarrow> byte list option) \<Rightarrow> ('m \<Rightarrow> bool) \<Rightarrow> 'm \<Rightarrow> ('r, 'm, 'k) node \<Rightarrow> bool" where
  "map_explained lookup ok m0 n \<longleftrightarrow>
     ok (w_map (sy_world (nd_system n))) \<and>
     (\<forall>k. lookup (w_map (sy_world (nd_system n))) k \<noteq> None \<longrightarrow> explained lookup m0 n k)"

lemma explained_kept:
  assumes "map_explained lookup ok m0 n" "lookup (w_map (sy_world (nd_system n))) k \<noteq> None"
    and "set (nd_managed n) \<subseteq> set (nd_managed n')"
    and "\<And>fv d. Finished fv d \<in> set (sy_threads (nd_system n)) \<Longrightarrow> Finished fv d \<in> set (sy_threads (nd_system n'))"
  shows "explained lookup m0 n' k"
  using assms unfolding explained_def map_explained_def by blast

lemma Add_changes:
  assumes "snd (Add B b ip m) \<noteq> m"
  obtains k where "ipToKey ip = Returns (Inr k)" "snd (Add B b ip m) = snd (Put B m (Bytes k) (U32 1))"
proof (cases "bl_m b = None")
  case False
  from assms False obtain k where k: "ipToKey ip = Returns (Inr k)"
    by (auto simp: Add_def split: outcome.splits sum.splits)
  with False have "snd (Add B b ip m) = snd (Put B m (Bytes k) (U32 1))"
    by (cases "Put B m (Bytes k) (U32 1)"; cases "fst (Put B m (Bytes k) (U32 1))") (auto simp: Add_def)
  with k that show ?thesis by blast
qed (use assms in \<open>simp add: Add_def\<close>)

lemma Remove_changes:
  assumes "snd (Remove B b ip m) \<noteq> m"
  obtains k where "snd (Remove B b ip m) = snd (Delete B m (Bytes k))"
proof (cases "bl_m b = None")
  case False
  from assms False obtain k where k: "ipToKey ip = Returns (Inr k)"
    by (auto simp: Remove_def split: outcome.splits sum.splits)
  with False have "snd (Remove B b ip m) = snd (Delete B m (Bytes k))"
    by (cases "Delete B m (Bytes k)"; cases "fst (Delete B m (Bytes k))") (auto simp: Remove_def)
  with that show ?thesis by blast
qed (use assms in \<open>simp add: Remove_def\<close>)

context bpf_map
begin

lemma Add_adds:
  assumes "ok m"
  shows "ok (snd (Add B b ip m))"
    and "lookup (snd (Add B b ip m)) k \<noteq> None \<Longrightarrow> lookup m k \<noteq> None \<or> ipToKey ip = Returns (Inr k)"
proof -
  have "ok (snd (Add B b ip m)) \<and>
      (lookup (snd (Add B b ip m)) k \<noteq> None \<longrightarrow> lookup m k \<noteq> None \<or> ipToKey ip = Returns (Inr k))"
  proof (cases "snd (Add B b ip m) = m")
    case False
    then obtain k' where k': "ipToKey ip = Returns (Inr k')" "snd (Add B b ip m) = snd (Put B m (Bytes k') (U32 1))"
      by (rule Add_changes)
    with False have "fst (Put B m (Bytes k') (U32 1)) = None" using assms put_bad [of m "Bytes k'" "U32 1"] by metis
    with k' show ?thesis
      using assms put_ok [of m "Bytes k'" "U32 1"] put_other [of m "Bytes k'" "U32 1" k] by (cases "k = k'") auto
  qed (use assms in simp)
  then show "ok (snd (Add B b ip m))"
    "lookup (snd (Add B b ip m)) k \<noteq> None \<Longrightarrow> lookup m k \<noteq> None \<or> ipToKey ip = Returns (Inr k)" by blast+
qed

lemma Remove_adds_nothing:
  assumes "ok m"
  shows "ok (snd (Remove B b ip m))" and "lookup (snd (Remove B b ip m)) k \<noteq> None \<Longrightarrow> lookup m k \<noteq> None"
proof -
  have "ok (snd (Remove B b ip m)) \<and> (lookup (snd (Remove B b ip m)) k \<noteq> None \<longrightarrow> lookup m k \<noteq> None)"
  proof (cases "snd (Remove B b ip m) = m")
    case False
    then obtain k' where k': "snd (Remove B b ip m) = snd (Delete B m (Bytes k'))" by (rule Remove_changes)
    with False have "fst (Delete B m (Bytes k')) = None" using assms delete_bad [of m "Bytes k'"] by metis
    with k' show ?thesis
      using assms delete_ok [of m "Bytes k'"] delete_lookup [of m "Bytes k'"] by (auto split: if_splits)
  qed (use assms in simp)
  then show "ok (snd (Remove B b ip m))" "lookup (snd (Remove B b ip m)) k \<noteq> None \<Longrightarrow> lookup m k \<noteq> None" by blast+
qed

end

lemma handleBlock_map:
  "handleBlock B show_err bind b reqBody m = (r, m') \<Longrightarrow>
   m' = (case bind reqBody of Inl err \<Rightarrow> m | Inr ip \<Rightarrow> snd (Add B b ip m))"
  by (auto simp: handleBlock_def split: sum.splits prod.splits outcome.splits option.splits)

lemma handleUnblock_map: "handleUnblock B show_err b ip m = (r, m') \<Longrightarrow> m' = snd (Remove B b ip m)"
  by (auto simp: handleUnblock_def split: prod.splits outcome.splits option.splits)

lemma handleBlock_returns:
  assumes "fst (Add B b ip m) \<noteq> Panics"
  obtains r where "handleBlock B show_err Inr b ip m = (Returns r, snd (Add B b ip m))"
proof -
  obtain err m' where "Add B b ip m = (Returns err, m')" using assms by (metis outcome.exhaust prod.collapse)
  then show ?thesis using that by (cases err) (auto simp: handleBlock_def)
qed

lemma advance_map:
  assumes "advance R oob net now e ctx0 p w = (p', w')" "e_blocklist e = blocklist_of B b"
  shows "w_map w' = w_map w \<or>
     (\<exists>fv d. p' = Finished fv d \<and> dec_Action d = ActionBlock \<and> w_map w' = snd (Add B b (GetClientIp fv) (w_map w)))"
proof (cases p)
  case (Scored fv ex score)
  from advance_Scored [OF assms(1) [unfolded Scored]] assms(2) Add_total [of B b "GetClientIp fv" "w_map w"] show ?thesis
    by (cases "dec_Action (policy oob (e_cfg e) ex score) = ActionBlock") (auto simp: blocklist_of_def)
qed (use assms(1) in \<open>auto split: prod.splits outcome.splits\<close>)

lemma step_keeps_finished:
  assumes "sys_step R oob e tick K nets mls s s'" "Finished fv d \<in> set (sy_threads s)"
  shows "Finished fv d \<in> set (sy_threads s')"
  using assms
proof (induction rule: sys_step.induct)
  case (act i s net ml now ctx0 p w)
  then obtain j where j: "j < length (sy_threads s)" "sy_threads s ! j = Finished fv d" by (metis in_set_conv_nth)
  then have "(sy_threads s)[i := p] ! j = Finished fv d" using act.hyps(4) by (cases "j = i") auto
  with j(1) show ?case by (simp add: in_set_conv_nth) (metis length_list_update)
qed (auto simp: set_redis_def)

text \<open>What one step of the calls does to the map: nothing, or the block of a call that finishes with it.\<close>

lemma step_map:
  assumes "sys_step R oob e tick K nets mls s s'" "e_blocklist e = blocklist_of B b"
  shows "w_map (sy_world s') = w_map (sy_world s) \<or>
     (\<exists>fv d. Finished fv d \<in> set (sy_threads s') \<and> dec_Action d = ActionBlock \<and>
        w_map (sy_world s') = snd (Add B b (GetClientIp fv) (w_map (sy_world s))))"
  using assms
proof (induction rule: sys_step.induct)
  case (act i s net ml now ctx0 p w)
  have "p \<in> set ((sy_threads s)[i := p])" using act.hyps(1) by (rule set_update_memI)
  with advance_map [OF act.hyps(4), of B b] act.prems show ?case by fastforce
qed (auto simp: set_redis_def drop_task_def)

text \<open>A block list without a map changes nothing, whatever is decided and asked.\<close>

lemma noop_step:
  assumes "node_step R oob e tick K nets mls H n n'" "e_blocklist e = blocklist_of B b" "bl_m b = None" "bl_m (h_list H) = None"
  shows "w_map (sy_world (nd_system n')) = w_map (sy_world (nd_system n))"
  using assms(1)
proof cases
  case (work s)
  from step_map [OF work(2) assms(2)] assms(3) show ?thesis by (auto simp: work(1) Add_def)
next
  case (block reqBody r m)
  from handleBlock_map [OF block(2)] assms(4) show ?thesis by (auto simp: block(1) Add_def split: sum.splits)
next
  case (unblock ip r m)
  from handleUnblock_map [OF unblock(2)] assms(4) show ?thesis by (auto simp: unblock(1) Remove_def)
qed

lemma noop_run:
  assumes "(node_step R oob e tick K nets mls H)\<^sup>*\<^sup>* n0 n" "e_blocklist e = blocklist_of B b" "bl_m b = None" "bl_m (h_list H) = None"
  shows "w_map (sy_world (nd_system n)) = w_map (sy_world (nd_system n0))"
  using assms(1) by (induction rule: rtranclp_induct) (auto dest: noop_step [OF _ assms(2-4)])

context bpf_map
begin

lemma explained_step:
  assumes step: "node_step R oob e tick K nets mls H n n'" and inv: "map_explained lookup ok m0 n"
    and e: "e_blocklist e = blocklist_of B b" "h_bpf H = B"
  shows "map_explained lookup ok m0 n'"
  using step
proof cases
  case (work s)
  have old: "explained lookup m0 n' k" if "lookup (w_map (sy_world (nd_system n))) k \<noteq> None" for k
  proof (rule explained_kept [OF inv that])
    show "Finished fv d \<in> set (sy_threads (nd_system n'))" if "Finished fv d \<in> set (sy_threads (nd_system n))" for fv d
      using step_keeps_finished [OF work(2) that] by (simp add: work(1))
  qed (simp add: work(1))
  from step_map [OF work(2) e(1)] show ?thesis
  proof (elim disjE exE conjE)
    assume "w_map (sy_world s) = w_map (sy_world (nd_system n))"
    with old inv show ?thesis by (simp add: map_explained_def work(1))
  next
    fix fv d
    assume fin: "Finished fv d \<in> set (sy_threads s)" "dec_Action d = ActionBlock"
      and m: "w_map (sy_world s) = snd (Add B b (GetClientIp fv) (w_map (sy_world (nd_system n))))"
    have ok: "ok (w_map (sy_world (nd_system n)))" using inv by (simp add: map_explained_def)
    have "explained lookup m0 n' k" if "lookup (w_map (sy_world s)) k \<noteq> None" for k
      using Add_adds(2) [OF ok that [unfolded m]]
    proof
      assume "ipToKey (GetClientIp fv) = Returns (Inr k)"
      with fin show ?thesis by (auto simp: explained_def work(1))
    qed (rule old)
    with Add_adds(1) [OF ok] show ?thesis by (simp add: map_explained_def work(1) m)
  qed
next
  case (block reqBody r m)
  have ok: "ok (w_map (sy_world (nd_system n)))" using inv by (simp add: map_explained_def)
  have old: "explained lookup m0 n' k" if "lookup (w_map (sy_world (nd_system n))) k \<noteq> None" for k
    by (rule explained_kept [OF inv that]) (auto simp: block(1))
  show ?thesis
  proof (cases "h_bind H reqBody")
    case (Inl err)
    with handleBlock_map [OF block(2)] old ok show ?thesis by (simp add: map_explained_def block(1))
  next
    case (Inr ip)
    with handleBlock_map [OF block(2)] have m: "m = snd (Add B (h_list H) ip (w_map (sy_world (nd_system n))))" by (simp add: e)
    have "explained lookup m0 n' k" if "lookup m k \<noteq> None" for k
      using Add_adds(2) [OF ok that [unfolded m]]
    proof
      assume "ipToKey ip = Returns (Inr k)"
      with Inr show ?thesis by (auto simp: explained_def block(1))
    qed (rule old)
    with Add_adds(1) [OF ok] show ?thesis by (simp add: map_explained_def block(1) m)
  qed
next
  case (unblock ip r m)
  have ok: "ok (w_map (sy_world (nd_system n)))" using inv by (simp add: map_explained_def)
  have m: "m = snd (Remove B (h_list H) ip (w_map (sy_world (nd_system n))))" using handleUnblock_map [OF unblock(2)] by (simp add: e)
  have "explained lookup m0 n' k" if "lookup m k \<noteq> None" for k
    by (rule explained_kept [OF inv Remove_adds_nothing(2) [OF ok that [unfolded m]]]) (auto simp: unblock(1))
  with Remove_adds_nothing(1) [OF ok] show ?thesis by (simp add: map_explained_def unblock(1) m)
qed

lemma explained_run:
  assumes "(node_step R oob e tick K nets mls H)\<^sup>*\<^sup>* n0 n" "e_blocklist e = blocklist_of B b" "h_bpf H = B"
    and "ok (w_map (sy_world (nd_system n0)))"
  shows "map_explained lookup ok (w_map (sy_world (nd_system n0))) n"
  using assms(1)
proof (induction rule: rtranclp_induct)
  case base
  show ?case using assms(4) by (simp add: map_explained_def explained_def)
next
  case (step n1 n2)
  from explained_step [OF step(2) step(3) assms(2,3)] show ?case .
qed

end

subsection \<open>A concrete process\<close>

definition sample_node :: "(server, lru, (string \<times> Message) list) node" where
  "sample_node = \<lparr> nd_system = idle, nd_managed = [] \<rparr>"

definition sample_http :: "lru http" where
  "sample_http = \<lparr> h_bpf = lru_bpf True, h_show = (\<lambda>e. []), h_bind = Inr, h_list = open_blocklist \<rparr>"

abbreviation sample_process :: "(server, lru, (string \<times> Message) list) node \<Rightarrow> (server, lru, (string \<times> Message) list) node \<Rightarrow> bool" where
  "sample_process \<equiv> node_step reference_redis no_oob (sample_engine (Fin (1 / 2))) srv_tick (broker_kafka (\<lambda>w msg. False)) {Delivered} UNIV sample_http"

text \<open>A request is in flight, then the management interface blocks its client.\<close>

definition blocked_node :: "(server, lru, (string \<times> Message) list) node" where
  "blocked_node =
     \<lparr> nd_system = set_map (snd (Add (lru_bpf True) open_blocklist ''10.0.0.1'' (new_lru 16 4 4))) one_in_flight,
       nd_managed = [Blocked ''10.0.0.1''] \<rparr>"

lemma lift_run:
  assumes "(sys_step R oob e tick K nets mls)\<^sup>*\<^sup>* (nd_system n) s"
  shows "(node_step R oob e tick K nets mls H)\<^sup>*\<^sup>* n (n\<lparr> nd_system := s \<rparr>)"
  using assms
proof (induction rule: rtranclp_induct)
  case (step s1 s2)
  have "node_step R oob e tick K nets mls H (n\<lparr> nd_system := s1 \<rparr>) (n\<lparr> nd_system := s1 \<rparr>\<lparr> nd_system := s2 \<rparr>)"
    by (rule node_step.work) (simp add: step(2))
  with step(3) show ?case by simp
qed simp

lemma one_in_flight_map: "w_map (sy_world one_in_flight) = new_lru 16 4 4"
  by (simp add: one_in_flight_def first_action_def split: prod.splits)

lemma blocked_run: "sample_process\<^sup>*\<^sup>* sample_node blocked_node"
proof -
  let ?n = "sample_node\<lparr> nd_system := one_in_flight \<rparr>"
  obtain r where "handleBlock (lru_bpf True) (\<lambda>e. []) Inr open_blocklist ''10.0.0.1'' (new_lru 16 4 4) =
      (Returns r, snd (Add (lru_bpf True) open_blocklist ''10.0.0.1'' (new_lru 16 4 4)))"
    using Add_total by (rule handleBlock_returns)
  then have "sample_process ?n (?n\<lparr> nd_system := set_map (snd (Add (lru_bpf True) open_blocklist ''10.0.0.1'' (new_lru 16 4 4))) (nd_system ?n),
      nd_managed := nd_managed ?n @ [case h_bind sample_http ''10.0.0.1'' of Inl err \<Rightarrow> Refused | Inr ip \<Rightarrow> Blocked ip] \<rparr>)"
    by (intro node_step.block) (simp add: sample_http_def one_in_flight_map)
  moreover have "sample_process\<^sup>*\<^sup>* sample_node ?n" by (rule lift_run) (simp add: sample_node_def sample_run)
  ultimately show ?thesis by (simp add: blocked_node_def sample_node_def sample_http_def)
qed

lemma blocked_node_sel:
  "w_redis (sy_world (nd_system blocked_node)) = w_redis (sy_world one_in_flight)" "sy_threads (nd_system blocked_node) = sy_threads one_in_flight"
  "nd_system sample_node = idle" "nd_managed sample_node = []" "h_bpf sample_http = lru_bpf True"
  by (simp_all add: blocked_node_def sample_node_def sample_http_def)

subsection \<open>Properties\<close>

text \<open>
  C14. The audit trail is complete and honest: in every reachable state of the process, whatever failed on the way
  and whatever was managed by hand, the decision events started for a client and an action are as many as the calls finished with
  that action, and the blocked-client notices as many as the calls finished with a block.
\<close>

theorem audit_trail_complete:
  assumes "(node_step R oob e tick K nets mls H)\<^sup>*\<^sup>* n0 n" "sy_threads (nd_system n0) = []"
    and "w_tasks (sy_world (nd_system n0)) = []" "sy_published (nd_system n0) = []"
  shows "tally (reports ip a) (w_tasks (sy_world (nd_system n)) @ sy_published (nd_system n)) = tally (finished_as ip a) (sy_threads (nd_system n)) \<and>
     tally (reports_block ip) (w_tasks (sy_world (nd_system n)) @ sy_published (nd_system n)) =
       tally (finished_as ip ActionBlock) (sy_threads (nd_system n))"
proof -
  have "audited (nd_system n0)" using assms(2-4) by (simp add: audited_def all_tasks_def)
  with audited_node [OF assms(1)] show ?thesis by (simp add: audited_def all_tasks_def)
qed

theorem audit_trail_complete_witness:
  "tally (reports_block ''10.0.0.1'') (w_tasks (sy_world (nd_system blocked_node)) @ sy_published (nd_system blocked_node)) =
     tally (finished_as ''10.0.0.1'' ActionBlock) (sy_threads (nd_system blocked_node))"
  using audit_trail_complete [OF blocked_run] by (simp add: idle_def blocked_node_sel)

text \<open>
  C16. Nobody is blocked without a reason: whatever the interleaving, an address found in the kernel map was there at the
  start, or a call finished with a block for that very address, or a management request asked for it.
\<close>

theorem blocked_only_for_a_reason:
  assumes "bpf_map B little lookup key_size value_size ok" "e_blocklist e = blocklist_of B b" "h_bpf H = B"
    and "(node_step R oob e tick K nets mls H)\<^sup>*\<^sup>* n0 n" "ok (w_map (sy_world (nd_system n0)))"
    and "ip_blocked lookup (w_map (sy_world (nd_system n))) ip"
  shows "ip_blocked lookup (w_map (sy_world (nd_system n0))) ip \<or>
     (\<exists>fv d. Finished fv d \<in> set (sy_threads (nd_system n)) \<and> dec_Action d = ActionBlock \<and> ipToKey (GetClientIp fv) = ipToKey ip) \<or>
     (\<exists>ip'. Blocked ip' \<in> set (nd_managed n) \<and> ipToKey ip' = ipToKey ip)"
proof -
  obtain k where k: "ipToKey ip = Returns (Inr k)" "lookup (w_map (sy_world (nd_system n))) k \<noteq> None"
    using assms(6) by (auto simp: ip_blocked_def split: outcome.splits sum.splits)
  with bpf_map.explained_run [OF assms(1,4,2,3,5)]
  have "explained lookup (w_map (sy_world (nd_system n0))) n k" by (simp add: map_explained_def)
  with k(1) show ?thesis by (simp add: explained_def ip_blocked_def)
qed

theorem blocked_only_for_a_reason_witness:
  "ip_blocked lru_lookup (w_map (sy_world (nd_system blocked_node))) ''10.0.0.1'' \<and>
     ((\<exists>fv d. Finished fv d \<in> set (sy_threads (nd_system blocked_node)) \<and> dec_Action d = ActionBlock \<and>
        ipToKey (GetClientIp fv) = ipToKey ''10.0.0.1'') \<or>
      (\<exists>ip'. Blocked ip' \<in> set (nd_managed blocked_node) \<and> ipToKey ip' = ipToKey ''10.0.0.1''))"
proof -
  have v: "valid_ip ''10.0.0.1''" by code_simp
  have b: "ip_blocked lru_lookup (w_map (sy_world (nd_system blocked_node))) ''10.0.0.1''"
    using lru_blocklist.Add_blocks [of "new_lru 16 4 4" "''10.0.0.1''" True] v
    by (simp add: blocked_node_def words_map_def)
  have "\<not> ip_blocked lru_lookup (new_lru 16 4 4) ''10.0.0.1''"
    by (simp add: ip_blocked_def split: outcome.splits sum.splits)
  with blocked_only_for_a_reason [OF lru.bpf_map_axioms sample_sel(3) blocked_node_sel(5) blocked_run _ b] b
  show ?thesis by (simp add: blocked_node_sel idle_sel)
qed

end
