(* ===== verification/Limiter.thy ===== *)
theory Limiter
  imports Node
begin

text \<open>
  What the process is, seen from outside: a bucket per client, requests that each take from their bucket once and are then decided.
  The machine below says no more than that; scores, the kernel map, events, management and the way Redis keeps a bucket are
  left open. Every run of the process is a run of it, and the limit is proved of it.
\<close>

subsection \<open>Refinement mappings\<close>

text \<open>Each step of the detailed machine is a step of the abstract one, or none; the invariant is the detailed machine's own.\<close>

locale refinement_map =
  fixes cstep :: "'c \<Rightarrow> 'c \<Rightarrow> bool" and astep :: "'a \<Rightarrow> 'a \<Rightarrow> bool" and abs :: "'c \<Rightarrow> 'a" and inv :: "'c \<Rightarrow> bool"
  assumes keeps: "inv s \<Longrightarrow> cstep s s' \<Longrightarrow> inv s'"
    and maps: "inv s \<Longrightarrow> cstep s s' \<Longrightarrow> abs s' = abs s \<or> astep (abs s) (abs s')"
begin

lemma inv_run:
  assumes "cstep\<^sup>*\<^sup>* s0 s" "inv s0"
  shows "inv s"
  using assms by (induction rule: rtranclp_induct) (auto intro: keeps)

lemma refined_run:
  assumes "cstep\<^sup>*\<^sup>* s0 s" "inv s0"
  shows "astep\<^sup>*\<^sup>* (abs s0) (abs s)"
  using assms
proof (induction rule: rtranclp_induct)
  case (step s1 s2)
  then show ?case using maps [OF inv_run [OF step(1) step.prems] step(2)] by auto
qed simp

end

subsection \<open>The abstract limiter\<close>

datatype call = Waiting string | Checked string bool  \<comment> \<open>refused by the bucket?\<close> | Decided string Action | Lost

record limiter =
  lm_now :: int
  lm_bucket :: "string \<Rightarrow> bucket"
  lm_calls :: "call list"

text \<open>\<open>faulty\<close>: the store may fail, before the bucket was asked or after.\<close>

inductive limit_step :: "int \<Rightarrow> int \<Rightarrow> bool \<Rightarrow> limiter \<Rightarrow> limiter \<Rightarrow> bool"
  for cp ttl faulty where
  request: "limit_step cp ttl faulty s (s\<lparr> lm_calls := lm_calls s @ [Waiting ip] \<rparr>)"
| take: "i < length (lm_calls s) \<Longrightarrow> lm_calls s ! i = Waiting ip \<Longrightarrow>
     spec_decrement cp ttl (lm_now s) (lm_bucket s ip) = (remaining, b) \<Longrightarrow>
     limit_step cp ttl faulty s
       (s\<lparr> lm_bucket := (lm_bucket s)(ip := b), lm_calls := (lm_calls s)[i := Checked ip (remaining < 0)] \<rparr>)"
| unheard: "faulty \<Longrightarrow> i < length (lm_calls s) \<Longrightarrow> lm_calls s ! i = Waiting ip \<Longrightarrow>
     spec_decrement cp ttl (lm_now s) (lm_bucket s ip) = (remaining, b) \<Longrightarrow>
     limit_step cp ttl faulty s (s\<lparr> lm_bucket := (lm_bucket s)(ip := b), lm_calls := (lm_calls s)[i := Checked ip False] \<rparr>)"
| unsent: "faulty \<Longrightarrow> i < length (lm_calls s) \<Longrightarrow> lm_calls s ! i = Waiting ip \<Longrightarrow>
     limit_step cp ttl faulty s (s\<lparr> lm_calls := (lm_calls s)[i := Checked ip False] \<rparr>)"
| decide: "i < length (lm_calls s) \<Longrightarrow> lm_calls s ! i = Checked ip refused \<Longrightarrow> (refused \<longrightarrow> a = ActionBlock) \<Longrightarrow>
     limit_step cp ttl faulty s (s\<lparr> lm_calls := (lm_calls s)[i := Decided ip a] \<rparr>)"
| lose: "i < length (lm_calls s) \<Longrightarrow> lm_calls s ! i = Checked ip refused \<Longrightarrow>
     limit_step cp ttl faulty s (s\<lparr> lm_calls := (lm_calls s)[i := Lost] \<rparr>)"
| wait: "limit_step cp ttl faulty s
     (s\<lparr> lm_now := lm_now s + int d, lm_bucket := \<lambda>ip. expire (lm_now s + int d) (lm_bucket s ip) \<rparr>)"

subsection \<open>The limit\<close>

fun spends :: "string \<Rightarrow> call \<Rightarrow> bool" where
  "spends ip (Waiting ip') \<longleftrightarrow> False"
| "spends ip (Checked ip' refused) \<longleftrightarrow> ip' = ip \<and> \<not> refused"
| "spends ip (Decided ip' a) \<longleftrightarrow> ip' = ip \<and> a \<noteq> ActionBlock"
| "spends ip Lost \<longleftrightarrow> False"

definition solvent :: "int \<Rightarrow> int \<Rightarrow> string \<Rightarrow> int \<Rightarrow> limiter \<Rightarrow> bool" where
  "solvent cp ttl ip t0 s \<longleftrightarrow>
     (\<forall>ip n x. lm_bucket s ip = Some (n, x) \<longrightarrow> n \<le> cp - 1) \<and>
     balanced cp ttl t0 (lm_now s) (tally (spends ip) (lm_calls s)) (lm_bucket s ip)"

lemma spec_decrement_bound:
  "(\<And>n x. b = Some (n, x) \<Longrightarrow> n \<le> cp - 1) \<Longrightarrow> spec_decrement cp ttl t b = (r, Some (n, x)) \<Longrightarrow> n \<le> cp - 1"
  by (cases b) (auto split: if_splits)

lemma expire_Some: "expire t b = Some p \<Longrightarrow> b = Some p"
  by (cases b) (auto split: if_splits)

lemma solvent_fewer:
  assumes "solvent cp ttl ip t0 s" "i < length (lm_calls s)" "spends ip call \<Longrightarrow> spends ip (lm_calls s ! i)"
  shows "solvent cp ttl ip t0 (s\<lparr> lm_calls := (lm_calls s)[i := call] \<rparr>)"
proof -
  have "tally (spends ip) ((lm_calls s)[i := call]) \<le> tally (spends ip) (lm_calls s)"
    using tally_update [OF assms(2), of "spends ip" call] assms(3) by (auto split: if_splits)
  with assms(1) show ?thesis by (auto simp: solvent_def intro: balanced_fewer)
qed

lemma solvent_step:
  assumes "limit_step cp ttl False s s'" "solvent cp ttl ip t0 s" "0 < ttl"
  shows "solvent cp ttl ip t0 s'"
  using assms
proof (induction rule: limit_step.induct)
  case (take i s ip' remaining b)
  have n: "tally (spends ip) ((lm_calls s)[i := Checked ip' (remaining < 0)]) =
      tally (spends ip) (lm_calls s) + (if ip' = ip \<and> \<not> remaining < 0 then 1 else 0)"
    using tally_update [OF take.hyps(1), of "spends ip" "Checked ip' (remaining < 0)"] take.hyps(2) by simp
  have bound: "n \<le> cp - 1" if "lm_bucket s k = Some (n, x)" for k n x using take.prems(1) that by (auto simp: solvent_def)
  have "balanced cp ttl t0 (lm_now s) (tally (spends ip) (lm_calls s)) (lm_bucket s ip)" using take.prems(1) by (simp add: solvent_def)
  from balanced_decrement [OF this bound take.prems(2)]
  have "balanced cp ttl t0 (lm_now s) (tally (spends ip) ((lm_calls s)[i := Checked ip' (remaining < 0)])) (((lm_bucket s)(ip' := b)) ip)"
    using take.hyps(3) take.prems(1) n by (cases "ip' = ip") (auto simp: solvent_def)
  moreover have "m \<le> cp - 1" if "((lm_bucket s)(ip' := b)) k = Some (m, x)" for k m x
    using that bound spec_decrement_bound [of "lm_bucket s ip'" cp ttl "lm_now s" remaining m x] take.hyps(3) by (auto split: if_splits)
  ultimately show ?case by (simp add: solvent_def)
next
  case (wait s d)
  then show ?case by (auto simp: solvent_def balanced_expire dest: expire_Some)
next
  case (request s ip')
  then show ?case by (simp add: solvent_def)
qed (auto intro!: solvent_fewer)

lemma limiter_limit:
  assumes "(limit_step cp ttl False)\<^sup>*\<^sup>* s0 s" "0 < ttl" "lm_calls s0 = []" "\<And>ip n x. lm_bucket s0 ip = Some (n, x) \<Longrightarrow> n \<le> cp - 1"
    and "lm_now s < lm_now s0 + 1000 * ttl"
  shows "tally (spends ip) (lm_calls s) \<le> nat cp"
proof -
  have "solvent cp ttl ip (lm_now s0) s0" using assms(3,4) by (auto simp: solvent_def balanced_def)
  with assms(1) have "solvent cp ttl ip (lm_now s0) s"
    by (induction rule: rtranclp_induct) (auto intro: solvent_step assms(2))
  with assms(5) show ?thesis by (fastforce simp: solvent_def balanced_def)
qed

subsection \<open>The process refines it\<close>

fun view :: "phase \<Rightarrow> call" where
  "view (Arrived fv) = Waiting (GetClientIp fv)"
| "view (Bucketed fv ex) = Checked (GetClientIp fv) ex"
| "view (Scored fv ex score) = Checked (GetClientIp fv) ex"
| "view (Finished fv d) = Decided (GetClientIp fv) (dec_Action d)"
| "view Crashed = Lost"

lemma spends_view [simp]: "spends ip (view p) = holds_token ip p"
  by (cases p) auto

lemma tally_view: "tally (spends ip) (map view ps) = tally (holds_token ip) ps"
  by (induction ps) simp_all

definition limiter_of :: "('r \<Rightarrow> int) \<Rightarrow> ('r \<Rightarrow> string \<Rightarrow> bucket) \<Rightarrow> ('r, 'm, 'k) node \<Rightarrow> limiter" where
  "limiter_of now bucket n =
     \<lparr> lm_now = now (w_redis (sy_world (nd_system n))), lm_bucket = bucket (w_redis (sy_world (nd_system n))),
       lm_calls = map view (sy_threads (nd_system n)) \<rparr>"

text \<open>A call's actions after the first: they leave Redis alone and either decide, crash or show nothing.\<close>

lemma advance_view:
  assumes "advance R oob net now e ctx0 p w = (p', w')" "\<And>fv. p \<noteq> Arrived fv"
  shows "view p' = view p \<or>
     (\<exists>ip ex. view p = Checked ip ex \<and> (view p' = Lost \<or> (\<exists>a. view p' = Decided ip a \<and> (ex \<longrightarrow> a = ActionBlock))))"
proof (cases p)
  case (Scored fv ex score)
  from advance_Scored [OF assms(1) [unfolded Scored]] show ?thesis
    unfolding Scored by (auto simp: policy_Action)
qed (use assms in \<open>auto split: outcome.splits\<close>)

context bucket_client
begin

lemma store_bounds: "0 < ttl_arg oob c" "buckets_ok entry c r \<Longrightarrow> buckets entry r ip = Some (n, x) \<Longrightarrow> n \<le> cap c - 1"
  by (rule svc.ttl_pos, rule svc.bucket_bound)

end

locale bucket_process = bucket_client R now entry tick oob c
  for R :: "'r redis" and now entry tick oob c +
  fixes e :: "('e, 'b, 'm) Engine" and K :: "'k kafka" and nets :: "transport set" and mls :: "'e ml_Client option set" and H :: "'m http"
  assumes engine_client: "e_redis e = c"
begin

abbreviation process_step :: "('r, 'm, 'k) node \<Rightarrow> ('r, 'm, 'k) node \<Rightarrow> bool" where
  "process_step \<equiv> node_step R oob e tick K nets mls H"

abbreviation spec_step :: "limiter \<Rightarrow> limiter \<Rightarrow> bool" where
  "spec_step \<equiv> limit_step (cap c) (ttl_arg oob c) (nets \<noteq> {Delivered})"

abbreviation to_limiter :: "('r, 'm, 'k) node \<Rightarrow> limiter" where
  "to_limiter \<equiv> limiter_of now (buckets entry)"

definition store_ok :: "('r, 'm, 'k) node \<Rightarrow> bool" where
  "store_ok n \<longleftrightarrow> buckets_ok entry c (w_redis (sy_world (nd_system n)))"

text \<open>The first action of a call, for every fate of its Redis request.\<close>

lemma Decrement_fates:
  assumes "buckets_ok entry c r" "net \<in> nets" "Decrement R oob net c ip r = ((remaining, err), r')"
  defines "sp \<equiv> spec_decrement (cap c) (ttl_arg oob c) (now r) (buckets entry r ip)"
  shows "buckets_ok entry c r'" "now r' = now r"
    and "buckets entry r' = (buckets entry r)(ip := snd sp) \<and> (err = None \<and> remaining < 0 \<longleftrightarrow> fst sp < 0) \<or>
      nets \<noteq> {Delivered} \<and> err \<noteq> None \<and> (buckets entry r' = (buckets entry r)(ip := snd sp) \<or> r' = r)"
proof -
  have r': "r' = r \<and> err \<noteq> None \<and> net \<noteq> Delivered \<or> r' = snd (Decrement R oob Delivered c ip r) \<and> (net = Delivered \<or> err \<noteq> None)"
    using assms(3) by (cases net) (auto simp: Decrement_def split: prod.splits sum.splits)
  note svc = svc.decrement_ok [OF assms(1), of ip] svc.decrement_clock [OF assms(1), of ip] svc.decrement_bucket [OF assms(1), of ip]
    svc.decrement_reply [OF assms(1), of ip]
  show "buckets_ok entry c r'" "now r' = now r" using r' svc assms(1) by auto
  have "err = None \<and> remaining = fst sp" if "net = Delivered" using svc(4) assms(3) that by (auto simp: sp_def)
  then show "buckets entry r' = (buckets entry r)(ip := snd sp) \<and> (err = None \<and> remaining < 0 \<longleftrightarrow> fst sp < 0) \<or>
      nets \<noteq> {Delivered} \<and> err \<noteq> None \<and> (buckets entry r' = (buckets entry r)(ip := snd sp) \<or> r' = r)"
    using r' svc(3) assms(2) by (auto simp: sp_def)
qed

lemma call_maps:
  assumes n: "store_ok n" and i: "i < length (sy_threads (nd_system n))" and net: "net \<in> nets"
    and adv: "advance R oob net tm (e\<lparr> e_ml := ml \<rparr>) ctx0 (sy_threads (nd_system n) ! i) (sy_world (nd_system n)) = (p, w)"
  defines "n' \<equiv> n\<lparr> nd_system := (nd_system n)\<lparr> sy_threads := (sy_threads (nd_system n))[i := p], sy_world := w \<rparr> \<rparr>"
  shows "store_ok n' \<and> (to_limiter n' = to_limiter n \<or> spec_step (to_limiter n) (to_limiter n'))"
proof (cases "\<exists>fv. sy_threads (nd_system n) ! i = Arrived fv")
  case True
  let ?r = "w_redis (sy_world (nd_system n))"
  obtain fv where fv: "sy_threads (nd_system n) ! i = Arrived fv" using True ..
  obtain remaining err r' where d: "Decrement R oob net c (GetClientIp fv) ?r = ((remaining, err), r')" by (metis prod.exhaust)
  have p: "p = Bucketed fv (err = None \<and> remaining < 0)" "w_redis w = r'" using adv d fv engine_client by auto
  note f = Decrement_fates [OF n [unfolded store_ok_def] net d]
  obtain rem b where sp: "spec_decrement (cap c) (ttl_arg oob c) (now ?r) (buckets entry ?r (GetClientIp fv)) = (rem, b)" by (metis prod.exhaust)
  let ?l = "to_limiter n"
  have l: "i < length (lm_calls ?l)" "lm_calls ?l ! i = Waiting (GetClientIp fv)"
      "spec_decrement (cap c) (ttl_arg oob c) (lm_now ?l) (lm_bucket ?l (GetClientIp fv)) = (rem, b)"
    using i fv sp by (simp_all add: limiter_of_def)
  have l': "to_limiter n' = ?l\<lparr> lm_bucket := buckets entry r', lm_calls := (lm_calls ?l)[i := view p] \<rparr>" "lm_bucket ?l = buckets entry ?r"
    using p(2) f(2) by (simp_all add: limiter_of_def n'_def map_update)
  from f(3) have "spec_step ?l (to_limiter n')"
  proof (elim disjE conjE)
    assume "buckets entry r' = (buckets entry ?r)(GetClientIp fv := snd (spec_decrement (cap c) (ttl_arg oob c) (now ?r) (buckets entry ?r (GetClientIp fv))))"
      "err = None \<and> remaining < 0 \<longleftrightarrow> fst (spec_decrement (cap c) (ttl_arg oob c) (now ?r) (buckets entry ?r (GetClientIp fv))) < 0"
    then show ?thesis using limit_step.take [OF l] sp by (simp add: l' p(1))
  next
    assume "nets \<noteq> {Delivered}" "err \<noteq> None"
      "buckets entry r' = (buckets entry ?r)(GetClientIp fv := snd (spec_decrement (cap c) (ttl_arg oob c) (now ?r) (buckets entry ?r (GetClientIp fv))))"
    then show ?thesis using limit_step.unheard [OF _ l, of "nets \<noteq> {Delivered}"] sp by (auto simp: l' p(1))
  next
    assume "nets \<noteq> {Delivered}" "err \<noteq> None" "r' = ?r"
    then show ?thesis using limit_step.unsent [OF _ l(1,2), of "nets \<noteq> {Delivered}"] by (auto simp: l'(1) p(1) simp flip: l'(2))
  qed
  with f(1) p(2) show ?thesis by (simp add: store_ok_def n'_def)
next
  case False
  have w: "w_redis w = w_redis (sy_world (nd_system n))" using advance_after_bucket(1) [OF adv] False by blast
  have l': "to_limiter n' = (to_limiter n)\<lparr> lm_calls := (lm_calls (to_limiter n))[i := view p] \<rparr>"
    using w by (simp add: limiter_of_def n'_def map_update)
  have l: "i < length (lm_calls (to_limiter n))" "lm_calls (to_limiter n) ! i = view (sy_threads (nd_system n) ! i)"
    using i by (simp_all add: limiter_of_def)
  have "\<And>fv. sy_threads (nd_system n) ! i \<noteq> Arrived fv" using False by blast
  from advance_view [OF adv this] have "to_limiter n' = to_limiter n \<or> spec_step (to_limiter n) (to_limiter n')"
  proof (elim disjE exE conjE)
    assume "view p = view (sy_threads (nd_system n) ! i)"
    then have "(lm_calls (to_limiter n))[i := view p] = lm_calls (to_limiter n)" using l(2) by (metis list_update_id)
    then show ?thesis by (simp add: l')
  qed (use limit_step.decide [OF l(1)] limit_step.lose [OF l(1)] l(2) in \<open>auto simp: l'\<close>)
  with n w show ?thesis by (simp add: store_ok_def n'_def)
qed

lemma process_maps:
  assumes "process_step n n'" "store_ok n"
  shows "store_ok n' \<and> (to_limiter n' = to_limiter n \<or> spec_step (to_limiter n) (to_limiter n'))"
  using assms(1)
proof cases
  case (work s)
  from work(2) show ?thesis
  proof cases
    case (arrive fv)
    have "to_limiter n' = (to_limiter n)\<lparr> lm_calls := lm_calls (to_limiter n) @ [Waiting (GetClientIp fv)] \<rparr>"
      by (simp add: limiter_of_def work(1) arrive)
    then show ?thesis using limit_step.request assms(2) by (simp add: store_ok_def work(1) arrive)
  next
    case (act i net ml tm ctx0 p w)
    then show ?thesis using call_maps [OF assms(2) act(2,3,5)] by (simp add: work(1))
  next
    case (publish i t tm)
    then show ?thesis using assms(2) by (simp add: limiter_of_def store_ok_def work(1) drop_task_def)
  next
    case (pass d)
    let ?r = "w_redis (sy_world (nd_system n))"
    have ok: "buckets_ok entry c ?r" using assms(2) by (simp add: store_ok_def)
    have "to_limiter n' = (to_limiter n)\<lparr> lm_now := lm_now (to_limiter n) + int d,
        lm_bucket := \<lambda>ip. expire (lm_now (to_limiter n) + int d) (lm_bucket (to_limiter n) ip) \<rparr>"
      using svc.wait_clock [OF ok, of d] svc.wait_bucket [OF ok, of d] by (simp add: limiter_of_def work(1) pass set_redis_def fun_eq_iff)
    then show ?thesis using limit_step.wait svc.wait_ok [OF ok, of d] by (simp add: store_ok_def work(1) pass set_redis_def)
  qed
qed (use assms(2) in \<open>simp_all add: limiter_of_def store_ok_def\<close>)

end

sublocale bucket_process \<subseteq> ref: refinement_map process_step spec_step to_limiter store_ok
  using process_maps by unfold_locales blast+

context bucket_process
begin

lemma process_refined:
  assumes "process_step\<^sup>*\<^sup>* n0 n" "buckets_ok entry c (w_redis (sy_world (nd_system n0)))"
  shows "spec_step\<^sup>*\<^sup>* (to_limiter n0) (to_limiter n)"
  using ref.refined_run [OF assms(1)] assms(2) by (simp add: store_ok_def)

end

interpretation sample_limiter: bucket_process reference_redis srv_clock srv_table srv_tick no_oob default_client
  "sample_engine (Fin (1 / 2))" "broker_kafka (\<lambda>w msg. False)" "{Delivered}" UNIV sample_http
  by unfold_locales simp

lemma bucket_processI:
  "bucket_client R now entry tick oob (e_redis e) \<Longrightarrow> bucket_process R now entry tick oob (e_redis e) e"
  by (simp add: bucket_process_def bucket_process_axioms_def)

subsection \<open>Properties\<close>

text \<open>
  C6. The process refines the abstract limiter. Whatever the interleaving of calls, goroutines, management requests and time, and
  whatever becomes of the Redis requests, the clock, the buckets and the calls of a run of the process make a run of the abstract
  machine: every call takes from its client's bucket once, in one step, and is then decided; one whose bucket refused it is blocked.
  Only when Redis requests can fail does a call pass unchecked, with its token taken or not.
\<close>

theorem process_refines_limiter:
  assumes "bucket_client R now entry tick oob (e_redis e)"
    and "(node_step R oob e tick K nets mls H)\<^sup>*\<^sup>* n0 n" "buckets_ok entry (e_redis e) (w_redis (sy_world (nd_system n0)))"
  shows "(limit_step (cap (e_redis e)) (ttl_arg oob (e_redis e)) (nets \<noteq> {Delivered}))\<^sup>*\<^sup>*
     (limiter_of now (buckets entry) n0) (limiter_of now (buckets entry) n)"
  using bucket_process.process_refined [OF bucket_processI [OF assms(1)] assms(2,3)] .

theorem process_refines_limiter_witness:
  "(limit_step 100 60 False)\<^sup>*\<^sup>* (limiter_of srv_clock (buckets srv_table) sample_node) (limiter_of srv_clock (buckets srv_table) blocked_node)"
  using process_refines_limiter [OF _ blocked_run, of srv_clock srv_table] default_bucket.bucket_client_axioms
  by (simp add: idle_sel blocked_node_sel)

text \<open>
  C1. However the actions of concurrent requests, the publishing goroutines, management requests and time
  interleave, with Redis calls that are delivered, no client ever has more requests let through or in flight
  with a token than the bucket's capacity within one time to live of any quiet moment.
\<close>

theorem process_rate_limit:
  assumes "bucket_client R now entry tick oob (e_redis e)"
    and "(node_step R oob e tick K {Delivered} mls H)\<^sup>*\<^sup>* n0 n"
    and "buckets_ok entry (e_redis e) (w_redis (sy_world (nd_system n0)))" "sy_threads (nd_system n0) = []"
    and "now (w_redis (sy_world (nd_system n))) < now (w_redis (sy_world (nd_system n0))) + 1000 * ttl_arg oob (e_redis e)"
  shows "tally (holds_token ip) (sy_threads (nd_system n)) \<le> nat (cap (e_redis e))"
proof -
  note run = bucket_process.process_refined [OF bucket_processI [OF assms(1)] assms(2,3), simplified]
  have "tally (spends ip) (lm_calls (limiter_of now (buckets entry) n)) \<le> nat (cap (e_redis e))"
    by (rule limiter_limit [OF run bucket_client.store_bounds(1) [OF assms(1)]])
      (use assms(4,5) bucket_client.store_bounds(2) [OF assms(1,3)] in \<open>simp_all add: limiter_of_def\<close>)
  then show ?thesis by (simp add: limiter_of_def tally_view)
qed

theorem process_rate_limit_witness: "tally (holds_token ''10.0.0.1'') (sy_threads (nd_system blocked_node)) \<le> nat 100"
  using process_rate_limit [of reference_redis srv_clock srv_table srv_tick no_oob "sample_engine (Fin (1 / 2))"
      "broker_kafka (\<lambda>w msg. False)" UNIV sample_http sample_node blocked_node "''10.0.0.1''"] blocked_run default_bucket.bucket_client_axioms
  by (simp add: one_in_flight_clock idle_sel blocked_node_sel)

end
