(* ===== verification/GoUtf8.thy ===== *)
theory GoUtf8
  imports GoStrings
begin

text \<open>
  The parts of \<^verbatim>\<open>unicode/utf8\<close> and \<^verbatim>\<open>unicode/utf16\<close> the JSON decoder rests on: which bytes form a
  rune, which strings are valid UTF-8, how a rune is encoded, and surrogate pairs.
\<close>

definition in_range :: "nat \<Rightarrow> nat \<Rightarrow> char \<Rightarrow> bool" where
  "in_range lo hi c \<longleftrightarrow> lo \<le> (of_char c :: nat) \<and> (of_char c :: nat) \<le> hi"

text \<open>\<open>conts lo hi n cs\<close>: \<open>n\<close> continuation bytes follow, the first of them between \<open>lo\<close> and \<open>hi\<close>.\<close>

definition conts :: "nat \<Rightarrow> nat \<Rightarrow> nat \<Rightarrow> string \<Rightarrow> bool" where
  "conts lo hi n cs \<longleftrightarrow> n \<le> length cs \<and> list_all (in_range 0x80 0xBF) (take n cs) \<and>
     (case cs of [] \<Rightarrow> False | c # _ \<Rightarrow> in_range lo hi c)"

text \<open>
  The length of the rune a string starts with (\<^verbatim>\<open>utf8.DecodeRune\<close>); \<open>None\<close> where the decoder
  reports an invalid byte.
\<close>

fun rune_len :: "string \<Rightarrow> nat option" where
  "rune_len [] = None"
| "rune_len (c # cs) =
     (if in_range 0 0x7F c then Some 1
      else if in_range 0xC2 0xDF c then (if conts 0x80 0xBF 1 cs then Some 2 else None)
      else if in_range 0xE0 0xE0 c then (if conts 0xA0 0xBF 2 cs then Some 3 else None)
      else if in_range 0xED 0xED c then (if conts 0x80 0x9F 2 cs then Some 3 else None)
      else if in_range 0xE1 0xEF c then (if conts 0x80 0xBF 2 cs then Some 3 else None)
      else if in_range 0xF0 0xF0 c then (if conts 0x90 0xBF 3 cs then Some 4 else None)
      else if in_range 0xF4 0xF4 c then (if conts 0x80 0x8F 3 cs then Some 4 else None)
      else if in_range 0xF1 0xF3 c then (if conts 0x80 0xBF 3 cs then Some 4 else None)
      else None)"

lemma rune_len_bounds: "rune_len s = Some n \<Longrightarrow> 0 < n \<and> n \<le> length s"
  by (cases s) (auto simp: conts_def split: if_splits)

function valid_utf8 :: "string \<Rightarrow> bool" where
  "valid_utf8 s = (s = [] \<or> (case rune_len s of None \<Rightarrow> False | Some n \<Rightarrow> valid_utf8 (drop n s)))"
  by auto
termination
  by (relation "measure length") (auto dest: rune_len_bounds)

declare valid_utf8.simps [simp del]

definition encode_rune :: "nat \<Rightarrow> string" where
  "encode_rune r =
     (if r < 0x80 then bytes_str [r]
      else if r < 0x800 then bytes_str [0xC0 + r div 64, 0x80 + r mod 64]
      else if 0x110000 \<le> r \<or> (0xD800 \<le> r \<and> r < 0xE000) then bytes_str [0xEF, 0xBF, 0xBD]
      else if r < 0x10000 then bytes_str [0xE0 + r div 4096, 0x80 + r div 64 mod 64, 0x80 + r mod 64]
      else bytes_str [0xF0 + r div 262144, 0x80 + r div 4096 mod 64, 0x80 + r div 64 mod 64, 0x80 + r mod 64])"

definition RuneError :: nat where "RuneError = 0xFFFD"

definition IsSurrogate :: "nat \<Rightarrow> bool" where
  "IsSurrogate r \<longleftrightarrow> 0xD800 \<le> r \<and> r < 0xE000"

text \<open>\<^verbatim>\<open>utf16.DecodeRune\<close>: \<open>None\<close> for the replacement character, which no valid pair denotes.\<close>

definition DecodePair :: "nat \<Rightarrow> nat option \<Rightarrow> nat option" where
  "DecodePair r1 r2 =
     (case r2 of None \<Rightarrow> None
      | Some r \<Rightarrow>
          if 0xD800 \<le> r1 \<and> r1 < 0xDC00 \<and> 0xDC00 \<le> r \<and> r < 0xE000
          then Some ((r1 - 0xD800) * 1024 + (r - 0xDC00) + 0x10000) else None)"

subsection \<open>Facts\<close>

lemma in_range_char_of [simp]: "n < 256 \<Longrightarrow> in_range lo hi (char_of n) \<longleftrightarrow> lo \<le> n \<and> n \<le> hi"
  by (simp add: in_range_def)

lemma conts_simps [simp]:
  "conts lo hi 1 (b # s) \<longleftrightarrow> in_range 0x80 0xBF b \<and> in_range lo hi b"
  "conts lo hi (Suc 0) (b # s) \<longleftrightarrow> in_range 0x80 0xBF b \<and> in_range lo hi b"
  "conts lo hi 2 (b # b' # s) \<longleftrightarrow> in_range 0x80 0xBF b \<and> in_range 0x80 0xBF b' \<and> in_range lo hi b"
  "conts lo hi 3 (b # b' # b'' # s) \<longleftrightarrow>
     in_range 0x80 0xBF b \<and> in_range 0x80 0xBF b' \<and> in_range 0x80 0xBF b'' \<and> in_range lo hi b"
  by (auto simp: conts_def numeral_2_eq_2 numeral_3_eq_3)

lemma rune_len_2:
  "2 \<le> a \<Longrightarrow> a < 32 \<Longrightarrow> b < 64 \<Longrightarrow> rune_len (bytes_str [0xC0 + a, 0x80 + b] @ s) = Some 2"
  by (simp add: bytes_str_def)

lemma rune_len_3:
  assumes "a < 16" "b < 64" "c < 64" "a = 0 \<Longrightarrow> 32 \<le> b" "a = 13 \<Longrightarrow> b < 32"
  shows "rune_len (bytes_str [0xE0 + a, 0x80 + b, 0x80 + c] @ s) = Some 3"
proof -
  consider "a = 0" | "a = 13" | "a \<noteq> 0" "a \<noteq> 13" by blast
  then show ?thesis using assms by cases (simp_all add: bytes_str_def)
qed

lemma rune_len_4:
  assumes "a < 5" "b < 64" "c < 64" "d < 64" "a = 0 \<Longrightarrow> 16 \<le> b" "a = 4 \<Longrightarrow> b < 16"
  shows "rune_len (bytes_str [0xF0 + a, 0x80 + b, 0x80 + c, 0x80 + d] @ s) = Some 4"
proof -
  consider "a = 0" | "a = 4" | "a \<noteq> 0" "a \<noteq> 4" by blast
  then show ?thesis using assms by cases (simp_all add: bytes_str_def)
qed

lemma length_bytes_str [simp]: "length (bytes_str bs) = length bs"
  by (simp add: bytes_str_def)

lemma rune_len_encode: "rune_len (encode_rune r @ s) = Some (length (encode_rune r))"
proof -
  consider "r < 0x80" | "0x80 \<le> r" "r < 0x800" | "0x110000 \<le> r \<or> (0xD800 \<le> r \<and> r < 0xE000)"
    | "0x800 \<le> r" "r < 0xD800 \<or> 0xE000 \<le> r" "r < 0x10000" | "0x10000 \<le> r" "r < 0x110000" by linarith
  then show ?thesis
  proof cases
    case 1
    then show ?thesis by (simp add: encode_rune_def bytes_str_def)
  next
    case 2
    have e: "encode_rune r = bytes_str [0xC0 + r div 64, 0x80 + r mod 64]" using 2 by (simp add: encode_rune_def)
    have "2 \<le> r div 64" "r div 64 < 32" "r mod 64 < 64" using 2 by linarith+
    then show ?thesis unfolding e by (simp only: rune_len_2 length_bytes_str) simp
  next
    case 3
    then have "encode_rune r = bytes_str [0xEF, 0xBF, 0xBD]" by (auto simp: encode_rune_def)
    then show ?thesis using rune_len_3 [of 15 63 61 s] by simp
  next
    case 4
    have e: "encode_rune r = bytes_str [0xE0 + r div 4096, 0x80 + r div 64 mod 64, 0x80 + r mod 64]"
      using 4 by (auto simp: encode_rune_def)
    have d: "r div 64 = 64 * (r div 4096) + r div 64 mod 64" using div_mult2_eq [of r 64 64] by simp
    have "32 \<le> r div 64" "r div 64 < 864 \<or> 896 \<le> r div 64" using 4 by linarith+
    with d have "r div 4096 < 16" "r div 64 mod 64 < 64" "r mod 64 < 64"
      "r div 4096 = 0 \<Longrightarrow> 32 \<le> r div 64 mod 64" "r div 4096 = 13 \<Longrightarrow> r div 64 mod 64 < 32" using 4 by (linarith | simp)+
    then show ?thesis unfolding e by (simp only: rune_len_3 length_bytes_str) simp
  next
    case 5
    have e: "encode_rune r = bytes_str [0xF0 + r div 262144, 0x80 + r div 4096 mod 64, 0x80 + r div 64 mod 64, 0x80 + r mod 64]"
      using 5 by (simp add: encode_rune_def)
    have d: "r div 4096 = 64 * (r div 262144) + r div 4096 mod 64" using div_mult2_eq [of r 4096 64] by simp
    have "16 \<le> r div 4096" "r div 4096 < 272" using 5 by linarith+
    with d have "r div 262144 < 5" "r div 4096 mod 64 < 64" "r div 64 mod 64 < 64" "r mod 64 < 64"
      "r div 262144 = 0 \<Longrightarrow> 16 \<le> r div 4096 mod 64" "r div 262144 = 4 \<Longrightarrow> r div 4096 mod 64 < 16" using 5 by (linarith | simp)+
    then show ?thesis unfolding e by (simp only: rune_len_4 length_bytes_str) simp
  qed
qed

lemma valid_utf8_Nil [simp]: "valid_utf8 []"
  by (subst valid_utf8.simps) simp

lemma valid_utf8_encode [simp]: "valid_utf8 (encode_rune r @ s) \<longleftrightarrow> valid_utf8 s"
  using rune_len_encode [of r s] rune_len_bounds [OF rune_len_encode, of r s]
  by (subst valid_utf8.simps) auto

text \<open>Whether a prefix is a rune does not depend on what follows it.\<close>

lemma conts_take: "0 < n \<Longrightarrow> conts lo hi n cs \<Longrightarrow> conts lo hi n (take n cs @ t)"
  by (cases cs; cases n) (auto simp: conts_def)

lemma rune_len_take:
  assumes "rune_len s = Some n"
  shows "rune_len (take n s @ t) = Some n"
proof (cases s)
  case (Cons c cs)
  then show ?thesis using assms conts_take [of "Suc 0" _ _ cs t] conts_take [of 2 _ _ cs t] conts_take [of 3 _ _ cs t]
    by (auto simp del: conts_simps split: if_splits)
qed (use assms in simp)

lemma valid_utf8_take:
  assumes "rune_len s = Some n"
  shows "valid_utf8 (take n s @ t) \<longleftrightarrow> valid_utf8 t"
  using rune_len_take [OF assms, of t] rune_len_bounds [OF assms]
  by (subst valid_utf8.simps) (auto simp: min_def)

lemma rune_len_ascii [simp]: "in_range 0 0x7F c \<Longrightarrow> rune_len (c # s) = Some 1"
  by simp

lemma valid_utf8_ascii [simp]: "in_range 0 0x7F c \<Longrightarrow> valid_utf8 (c # s) \<longleftrightarrow> valid_utf8 s"
  by (subst valid_utf8.simps) simp

lemma valid_utf8_all_ascii: "list_all (in_range 0 0x7F) s \<Longrightarrow> valid_utf8 s"
  by (induction s) auto

declare rune_len.simps(2) [simp del]

end
