(* ===== verification/JsonText.thy ===== *)
theory JsonText
  imports GoUtf8
begin

text \<open>
  Reading JSON text as \<^verbatim>\<open>encoding/json\<close> does: the scanner is a state machine that takes one byte
  at a time and keeps a stack of the open arrays and objects, at most \<^verbatim>\<open>maxNestingDepth\<close> of them.
  The model follows it state by state and builds the value on the way; number literals stay
  text until a field asks for a number. \<^verbatim>\<open>json.Unmarshal\<close> wants the whole input to be one value,
  \<^verbatim>\<open>Decoder.Decode\<close> reads the first value and leaves the rest.
\<close>

datatype jvalue =
    VNull
  | VBool bool
  | VNum string
  | VStr string
  | VArr "jvalue list"
  | VObj "(string \<times> jvalue) list"

subsection \<open>String literals\<close>

definition hex_val :: "char \<Rightarrow> nat option" where
  "hex_val c = digit_in 16 c"

text \<open>\<^verbatim>\<open>getu4\<close>: the code of a \<^verbatim>\<open>\uXXXX\<close> escape at the front.\<close>

definition getu4 :: "string \<Rightarrow> nat option" where
  "getu4 s =
     (if length s < 6 \<or> s ! 0 \<noteq> CHR 0x5C \<or> s ! 1 \<noteq> CHR ''u'' then None
      else case map hex_val (take 4 (drop 2 s)) of
        [Some a, Some b, Some c, Some d] \<Rightarrow> Some (((a * 16 + b) * 16 + c) * 16 + d)
      | _ \<Rightarrow> None)"

definition unescape :: "char \<Rightarrow> char option" where
  "unescape e =
     (if e \<in> {CHR 0x22, CHR 0x5C, CHR ''/'', CHR 0x27} then Some e
      else if e = CHR ''b'' then Some CHR 0x08
      else if e = CHR ''f'' then Some CHR 0x0C
      else if e = CHR ''n'' then Some CHR 0x0A
      else if e = CHR ''r'' then Some CHR 0x0D
      else if e = CHR ''t'' then Some CHR 0x09
      else None)"

definition prepend_text :: "string \<Rightarrow> string option \<Rightarrow> string option" where
  "prepend_text p r = map_option (\<lambda>t. p @ t) r"

text \<open>
  \<^verbatim>\<open>unquote\<close> of the text between the quotes. An unpaired surrogate and a byte that is not UTF-8 become
  the replacement character. \<open>None\<close>: not a string literal.
\<close>

function unquote :: "string \<Rightarrow> string option" where
  "unquote s =
     (case s of
        [] \<Rightarrow> Some []
      | c # cs \<Rightarrow>
          if c = CHR 0x5C then
            (case cs of
               [] \<Rightarrow> None
             | e # cs' \<Rightarrow>
                 if e = CHR ''u'' then
                   (case getu4 s of
                      None \<Rightarrow> None
                    | Some rr \<Rightarrow>
                        if IsSurrogate rr then
                          (case DecodePair rr (getu4 (drop 6 s)) of
                             Some dec \<Rightarrow> prepend_text (encode_rune dec) (unquote (drop 12 s))
                           | None \<Rightarrow> prepend_text (encode_rune RuneError) (unquote (drop 6 s)))
                        else prepend_text (encode_rune rr) (unquote (drop 6 s)))
                 else (case unescape e of
                         None \<Rightarrow> None
                       | Some x \<Rightarrow> prepend_text [x] (unquote cs')))
          else if c = CHR 0x22 \<or> (of_char c :: nat) < 0x20 then None
          else (case rune_len s of
                  None \<Rightarrow> prepend_text (encode_rune RuneError) (unquote cs)
                | Some n \<Rightarrow> prepend_text (take n s) (unquote (drop n s))))"
  by auto
termination
  by (relation "measure length") (auto dest: rune_len_bounds)

declare unquote.simps [simp del]

subsection \<open>The scanner\<close>

definition is_space :: "char \<Rightarrow> bool" where
  "is_space c \<longleftrightarrow> c \<in> {CHR 0x20, CHR 0x09, CHR 0x0D, CHR 0x0A}"

datatype numstate = NNeg | N0 | N1 | NDot | NDot0 | NE | NESign | NE0

datatype scan_state =
    BeginValue
  | BeginValueOrEmpty  \<comment> \<open>after \<^verbatim>\<open>[\<close>\<close>
  | BeginStringOrEmpty  \<comment> \<open>after \<^verbatim>\<open>{\<close>\<close>
  | BeginString  \<comment> \<open>after \<^verbatim>\<open>,\<close> in an object\<close>
  | InString string
  | InStringEsc string
  | InStringEscU nat string  \<comment> \<open>so many hexadecimal digits are still due\<close>
  | InNum numstate string
  | InLit string jvalue  \<comment> \<open>the rest of \<^verbatim>\<open>true\<close>, \<^verbatim>\<open>false\<close> or \<^verbatim>\<open>null\<close>\<close>
  | EndValue jvalue

datatype parse_frame =
    InKey "(string \<times> jvalue) list"
  | InVal "(string \<times> jvalue) list" string
  | InArr "jvalue list"

type_synonym jstate = "scan_state \<times> parse_frame list"

definition maxNestingDepth :: nat where "maxNestingDepth = 10000"

definition pushParseState :: "parse_frame \<Rightarrow> scan_state \<Rightarrow> parse_frame list \<Rightarrow> jstate option" where
  "pushParseState f st stk = (if length (f # stk) \<le> maxNestingDepth then Some (st, f # stk) else None)"

definition digit19 :: "char \<Rightarrow> bool" where
  "digit19 c \<longleftrightarrow> is_digit c \<and> c \<noteq> CHR ''0''"

fun num_step :: "numstate \<Rightarrow> char \<Rightarrow> numstate option" where
  "num_step NNeg c = (if c = CHR ''0'' then Some N0 else if digit19 c then Some N1 else None)"
| "num_step N1 c =
     (if is_digit c then Some N1 else if c = CHR ''.'' then Some NDot
      else if c = CHR ''e'' \<or> c = CHR ''E'' then Some NE else None)"
| "num_step N0 c =
     (if c = CHR ''.'' then Some NDot else if c = CHR ''e'' \<or> c = CHR ''E'' then Some NE else None)"
| "num_step NDot c = (if is_digit c then Some NDot0 else None)"
| "num_step NDot0 c =
     (if is_digit c then Some NDot0 else if c = CHR ''e'' \<or> c = CHR ''E'' then Some NE else None)"
| "num_step NE c =
     (if c = CHR ''+'' \<or> c = CHR ''-'' then Some NESign else if is_digit c then Some NE0 else None)"
| "num_step NESign c = (if is_digit c then Some NE0 else None)"
| "num_step NE0 c = (if is_digit c then Some NE0 else None)"

fun num_final :: "numstate \<Rightarrow> bool" where
  "num_final n \<longleftrightarrow> n \<in> {N0, N1, NDot0, NE0}"

definition begin_value :: "char \<Rightarrow> parse_frame list \<Rightarrow> jstate option" where
  "begin_value c stk =
     (if c = CHR ''{'' then pushParseState (InKey []) BeginStringOrEmpty stk
      else if c = CHR ''['' then pushParseState (InArr []) BeginValueOrEmpty stk
      else if c = CHR 0x22 then Some (InString [], stk)
      else if c = CHR ''-'' then Some (InNum NNeg [c], stk)
      else if c = CHR ''0'' then Some (InNum N0 [c], stk)
      else if c = CHR ''t'' then Some (InLit ''rue'' (VBool True), stk)
      else if c = CHR ''f'' then Some (InLit ''alse'' (VBool False), stk)
      else if c = CHR ''n'' then Some (InLit ''ull'' VNull, stk)
      else if digit19 c then Some (InNum N1 [c], stk)
      else None)"

text \<open>After a value: at top level only white space may follow.\<close>

fun end_value :: "char \<Rightarrow> jvalue \<Rightarrow> parse_frame list \<Rightarrow> jstate option" where
  "end_value c v [] = (if is_space c then Some (EndValue v, []) else None)"
| "end_value c v (f # fs) =
     (if is_space c then Some (EndValue v, f # fs)
      else case f of
        InKey ms \<Rightarrow>
          (if c = CHR '':'' then (case v of VStr k \<Rightarrow> Some (BeginValue, InVal ms k # fs) | _ \<Rightarrow> None) else None)
      | InVal ms k \<Rightarrow>
          (if c = CHR '','' then Some (BeginString, InKey (ms @ [(k, v)]) # fs)
           else if c = CHR ''}'' then Some (EndValue (VObj (ms @ [(k, v)])), fs)
           else None)
      | InArr vs \<Rightarrow>
          (if c = CHR '','' then Some (BeginValue, InArr (vs @ [v]) # fs)
           else if c = CHR '']'' then Some (EndValue (VArr (vs @ [v])), fs)
           else None))"

fun scan_step :: "char \<Rightarrow> jstate \<Rightarrow> jstate option" where
  "scan_step c (BeginValue, stk) = (if is_space c then Some (BeginValue, stk) else begin_value c stk)"
| "scan_step c (BeginValueOrEmpty, stk) =
     (if is_space c then Some (BeginValueOrEmpty, stk)
      else if c = CHR '']'' then Some (EndValue (VArr []), tl stk)
      else begin_value c stk)"
| "scan_step c (BeginStringOrEmpty, stk) =
     (if is_space c then Some (BeginStringOrEmpty, stk)
      else if c = CHR ''}'' then Some (EndValue (VObj []), tl stk)
      else if c = CHR 0x22 then Some (InString [], stk) else None)"
| "scan_step c (BeginString, stk) =
     (if is_space c then Some (BeginString, stk)
      else if c = CHR 0x22 then Some (InString [], stk) else None)"
| "scan_step c (InString raw, stk) =
     (if c = CHR 0x22 then (case unquote raw of None \<Rightarrow> None | Some s \<Rightarrow> Some (EndValue (VStr s), stk))
      else if c = CHR 0x5C then Some (InStringEsc (raw @ [c]), stk)
      else if (of_char c :: nat) < 0x20 then None
      else Some (InString (raw @ [c]), stk))"
| "scan_step c (InStringEsc raw, stk) =
     (if c \<in> set ''bfnrt/'' \<union> {CHR 0x22, CHR 0x5C} then Some (InString (raw @ [c]), stk)
      else if c = CHR ''u'' then Some (InStringEscU 4 (raw @ [c]), stk)
      else None)"
| "scan_step c (InStringEscU n raw, stk) =
     (if hex_val c = None then None
      else if n \<le> 1 then Some (InString (raw @ [c]), stk)
      else Some (InStringEscU (n - 1) (raw @ [c]), stk))"
| "scan_step c (InNum n raw, stk) =
     (case num_step n c of
        Some n' \<Rightarrow> Some (InNum n' (raw @ [c]), stk)
      | None \<Rightarrow> if num_final n then end_value c (VNum raw) stk else None)"
| "scan_step c (InLit rest v, stk) =
     (case rest of
        [] \<Rightarrow> None
      | d # ds \<Rightarrow> if c \<noteq> d then None else Some (if ds = [] then EndValue v else InLit ds v, stk))"
| "scan_step c (EndValue v, stk) = end_value c v stk"

fun scan_run :: "jstate \<Rightarrow> string \<Rightarrow> jstate option" where
  "scan_run st [] = Some st"
| "scan_run st (c # cs) = (case scan_step c st of None \<Rightarrow> None | Some st' \<Rightarrow> scan_run st' cs)"

datatype json_error = SyntaxError | UnmarshalTypeError string string  \<comment> \<open>what was found, for which field\<close>

text \<open>\<^verbatim>\<open>checkValid\<close>: the scanner sees one more space at the end of the input.\<close>

definition parse_text :: "string \<Rightarrow> json_error + jvalue" where
  "parse_text s =
     (case scan_run (BeginValue, []) (s @ [CHR 0x20]) of
        Some (EndValue v, []) \<Rightarrow> Inr v
      | _ \<Rightarrow> Inl SyntaxError)"

text \<open>\<^verbatim>\<open>Decoder.readValue\<close>: stop as soon as the value at top level is complete.\<close>

fun top_value :: "char \<Rightarrow> jstate \<Rightarrow> jvalue option" where
  "top_value c (EndValue v, []) = Some v"
| "top_value c (InNum n raw, []) = (if num_final n \<and> num_step n c = None then Some (VNum raw) else None)"
| "top_value c st = None"

fun readValue :: "jstate \<Rightarrow> string \<Rightarrow> json_error + jvalue" where
  "readValue st [] = (case top_value (CHR 0x20) st of Some v \<Rightarrow> Inr v | None \<Rightarrow> Inl SyntaxError)"
| "readValue st (c # cs) =
     (case top_value c st of
        Some v \<Rightarrow> Inr v
      | None \<Rightarrow> (case scan_step c st of None \<Rightarrow> Inl SyntaxError | Some st' \<Rightarrow> readValue st' cs))"

definition decode_text :: "string \<Rightarrow> json_error + jvalue" where
  "decode_text s = readValue (BeginValue, []) s"


subsection \<open>Decoded values are well formed\<close>

lemma prepend_Some: "prepend_text p r = Some t \<longleftrightarrow> (\<exists>u. r = Some u \<and> t = p @ u)"
  by (auto simp: prepend_text_def)

lemma unescape_ascii: "unescape e = Some x \<Longrightarrow> in_range 0 0x7F x"
  by (auto simp: unescape_def in_range_def split: if_splits)

lemma unquote_Nil [simp]: "unquote [] = Some []"
  by (subst unquote.simps) simp

lemmas unquote_Cons = unquote.simps [of "c # cs" for c cs, unfolded list.case]

lemma unquote_valid: "unquote s = Some t \<Longrightarrow> valid_utf8 t"
proof (induction s arbitrary: t rule: length_induct)
  case (1 s)
  have ih: "length u < length s \<Longrightarrow> unquote u = Some t \<Longrightarrow> valid_utf8 t" for u t using "1.IH" by blast
  show ?case
  proof (cases s)
    case Nil
    then show ?thesis using "1.prems" by simp
  next
    case (Cons c cs)
    note u = "1.prems" [unfolded Cons unquote_Cons]
    consider (esc) e cs' where "c = CHR 0x5C" "cs = e # cs'" | (plain) "c \<noteq> CHR 0x5C"
      using u by (cases cs) (auto split: if_splits)
    then show ?thesis
    proof cases
      case esc
      then show ?thesis using u Cons ih [of "drop 12 s"] ih [of "drop 6 s"] ih [of cs']
        by (auto simp: prepend_Some dest: unescape_ascii split: option.splits if_splits)
    next
      case plain
      show ?thesis
      proof (cases "rune_len (c # cs)")
        case None
        then show ?thesis using u plain Cons ih [of cs] by (auto simp: prepend_Some split: if_splits)
      next
        case (Some n)
        then show ?thesis using u plain Cons ih [of "drop n s"] rune_len_bounds [OF Some]
          by (auto simp: prepend_Some valid_utf8_take split: if_splits)
      qed
    qed
  qed
qed

fun num_run :: "numstate \<Rightarrow> string \<Rightarrow> numstate option" where
  "num_run n [] = Some n"
| "num_run n (c # cs) = (case num_step n c of None \<Rightarrow> None | Some n' \<Rightarrow> num_run n' cs)"

text \<open>The state the scanner is in after the text of a number so far; a literal ends in a final one.\<close>

definition number_reach :: "string \<Rightarrow> numstate option" where
  "number_reach s =
     (case s of [] \<Rightarrow> None
      | c # cs \<Rightarrow>
          (case (if c = CHR ''-'' then Some NNeg else num_step NNeg c) of
             None \<Rightarrow> None
           | Some n \<Rightarrow> num_run n cs))"

definition number_text :: "string \<Rightarrow> bool" where
  "number_text s = (case number_reach s of None \<Rightarrow> False | Some n \<Rightarrow> num_final n)"

fun json_value :: "jvalue \<Rightarrow> bool" where
  "json_value (VNum s) = number_text s"
| "json_value (VStr s) = valid_utf8 s"
| "json_value (VArr vs) = list_all json_value vs"
| "json_value (VObj ms) = list_all (\<lambda>(k, v). valid_utf8 k \<and> json_value v) ms"
| "json_value _ = True"

fun json_frame :: "parse_frame \<Rightarrow> bool" where
  "json_frame (InKey ms) = json_value (VObj ms)"
| "json_frame (InVal ms k) = (valid_utf8 k \<and> json_value (VObj ms))"
| "json_frame (InArr vs) = json_value (VArr vs)"

fun json_scan :: "scan_state \<Rightarrow> bool" where
  "json_scan (EndValue v) = json_value v"
| "json_scan (InLit rest v) = json_value v"
| "json_scan (InNum n raw) = (number_reach raw = Some n)"
| "json_scan _ = True"

lemma num_run_snoc: "num_run n (cs @ [c]) = (case num_run n cs of None \<Rightarrow> None | Some n' \<Rightarrow> num_step n' c)"
  by (induction cs arbitrary: n) (auto split: option.splits)

lemma number_reach_snoc:
  "number_reach raw = Some n \<Longrightarrow> number_reach (raw @ [c]) = num_step n c"
  by (cases raw) (auto simp: number_reach_def num_run_snoc simp del: num_step.simps split: option.split_asm)

definition json_state :: "jstate \<Rightarrow> bool" where
  "json_state st \<longleftrightarrow> json_scan (fst st) \<and> list_all json_frame (snd st)"

lemma end_value_json:
  "end_value c v stk = Some st \<Longrightarrow> json_value v \<Longrightarrow> list_all json_frame stk \<Longrightarrow> json_state st"
  by (induction c v stk rule: end_value.induct)
    (auto simp: json_state_def split: if_splits parse_frame.splits jvalue.splits)

lemma begin_value_json: "begin_value c stk = Some st \<Longrightarrow> list_all json_frame stk \<Longrightarrow> json_state st"
  by (auto simp: begin_value_def pushParseState_def json_state_def number_reach_def split: if_splits)

lemma list_all_tl [simp]: "list_all P xs \<Longrightarrow> list_all P (tl xs)"
  by (cases xs) auto

lemma step_json: "scan_step c st = Some st' \<Longrightarrow> json_state st \<Longrightarrow> json_state st'"
proof (induction c st rule: scan_step.induct)
  case (8 c n raw stk)
  then have r: "number_reach raw = Some n" "list_all json_frame stk" by (simp_all add: json_state_def)
  show ?case
  proof (cases "num_step n c")
    case None
    then have "num_final n" "end_value c (VNum raw) stk = Some st'" using 8 by (auto split: if_splits)
    then show ?thesis using end_value_json [of c "VNum raw" stk st'] r by (simp add: number_text_def)
  next
    case (Some n')
    then show ?thesis using 8 r by (auto simp: json_state_def number_reach_snoc)
  qed
qed (auto simp: json_state_def unquote_valid dest: begin_value_json end_value_json
    split: if_splits option.splits list.splits)

lemma run_json: "scan_run st s = Some st' \<Longrightarrow> json_state st \<Longrightarrow> json_state st'"
  by (induction st s rule: scan_run.induct) (auto dest: step_json split: option.splits)

lemma parse_text_json: "parse_text s = Inr v \<Longrightarrow> json_value v"
  using run_json [of "(BeginValue, [])" "s @ [CHR 0x20]"]
  by (auto simp: parse_text_def json_state_def split: option.splits scan_state.splits list.splits)


subsection \<open>Writing and reading back\<close>

text \<open>
  A printer for JSON values, without white space and with the escapes that are necessary. It is
  the reference the reading side is measured against; any encoder that differs only in optional
  escapes and white space is read alike.
\<close>

definition hex_char :: "nat \<Rightarrow> char" where
  "hex_char d = (if d < 10 then digit_char d else char_of (87 + d))"

definition json_escape :: "char \<Rightarrow> string" where
  "json_escape c =
     (if c = CHR 0x22 \<or> c = CHR 0x5C then [CHR 0x5C, c]
      else if (of_char c :: nat) < 0x20
      then [CHR 0x5C] @ ''u00'' @ [hex_char ((of_char c :: nat) div 16), hex_char ((of_char c :: nat) mod 16)]
      else [c])"

definition escape_text :: "string \<Rightarrow> string" where
  "escape_text s = concat (map json_escape s)"

definition quote_text :: "string \<Rightarrow> string" where
  "quote_text s = [CHR 0x22] @ escape_text s @ [CHR 0x22]"

fun print_value :: "jvalue \<Rightarrow> string" where
  "print_value VNull = ''null''"
| "print_value (VBool b) = (if b then ''true'' else ''false'')"
| "print_value (VNum s) = s"
| "print_value (VStr s) = quote_text s"
| "print_value (VArr vs) = ''['' @ Join (CHR '','') (map print_value vs) @ '']''"
| "print_value (VObj ms) = ''{'' @ Join (CHR '','') (map (\<lambda>(k, v). quote_text k @ '':'' @ print_value v) ms) @ ''}''"

fun nesting :: "jvalue \<Rightarrow> nat" where
  "nesting (VArr vs) = Suc (foldr (\<lambda>v. max (nesting v)) vs 0)"
| "nesting (VObj ms) = Suc (foldr (\<lambda>(k, v). max (nesting v)) ms 0)"
| "nesting _ = 0"

lemma hex_val_hex_char [simp]: "d < 16 \<Longrightarrow> hex_val (hex_char d) = Some d"
  by (auto simp: hex_val_def hex_char_def digit_in_def lower_def is_digit_def)

lemma of_char_le: "(of_char c :: nat) \<le> 255"
proof -
  have "(of_char c :: nat) = of_char (char_of (of_char c :: nat) :: char)" by simp
  also have "\<dots> = of_char c mod 256" by (rule of_char_of)
  finally have "(of_char c :: nat) = of_char c mod 256" .
  moreover have "(of_char c :: nat) mod 256 < 256" by simp
  ultimately show ?thesis by linarith
qed

lemma escape_high: "in_range 0x80 0xFF c \<Longrightarrow> json_escape c = [c]"
  by (auto simp: json_escape_def in_range_def)

lemma escape_text_high: "list_all (in_range 0x80 0xFF) s \<Longrightarrow> escape_text s = s"
  by (induction s) (simp_all add: escape_text_def escape_high)

lemma rune_high:
  assumes "rune_len (c # cs) = Some n" "\<not> in_range 0 0x7F c" "x \<in> set (take n (c # cs))"
  shows "in_range 0x80 0xFF x"
proof -
  have c: "in_range 0x80 0xFF c" using assms(2) using of_char_le [of c] by (auto simp: in_range_def)
  show ?thesis using assms c
    by (auto simp: rune_len.simps conts_def list_all_iff in_range_def take_Cons' split: if_splits list.splits)
qed

lemma unquote_high:
  assumes "rune_len (c # cs) = Some n" "\<not> in_range 0 0x7F c"
  shows "unquote (take n (c # cs) @ t) = prepend_text (take n (c # cs)) (unquote t)"
proof -
  obtain k where n: "n = Suc k" using rune_len_bounds [OF assms(1)] by (cases n) auto
  have c: "c \<noteq> CHR 0x5C" "\<not> (c = CHR 0x22 \<or> (of_char c :: nat) < 0x20)" using assms(2) by (auto simp: in_range_def)
  show ?thesis using rune_len_take [OF assms(1), of t] rune_len_bounds [OF assms(1)] c n
    by (simp add: unquote_Cons)
qed

lemma hex_val_0 [simp]: "hex_val CHR ''0'' = Some 0"
  by code_simp

lemma getu4_small:
  "d < 16 \<Longrightarrow> e < 16 \<Longrightarrow> getu4 (CHR 0x5C # CHR ''u'' # CHR ''0'' # CHR ''0'' # hex_char d # hex_char e # t) = Some (16 * d + e)"
  by (simp add: getu4_def)

lemma unquote_escape:
  assumes "in_range 0 0x7F c"
  shows "unquote (json_escape c @ t) = prepend_text [c] (unquote t)"
proof -
  consider "c = CHR 0x22 \<or> c = CHR 0x5C" | "(of_char c :: nat) < 0x20" "\<not> (c = CHR 0x22 \<or> c = CHR 0x5C)"
    | "\<not> (c = CHR 0x22 \<or> c = CHR 0x5C)" "\<not> (of_char c :: nat) < 0x20" by blast
  then show ?thesis
  proof cases
    case 1
    then show ?thesis by (auto simp: json_escape_def unquote_Cons unescape_def)
  next
    case 2
    let ?d = "(of_char c :: nat) div 16" and ?e = "(of_char c :: nat) mod 16"
    have "unquote (json_escape c @ t) = prepend_text (encode_rune (16 * ?d + ?e)) (unquote t)"
      using 2 getu4_small [of ?d ?e t] by (simp add: json_escape_def unquote_Cons IsSurrogate_def)
    moreover have "16 * ?d + ?e = of_char c" by simp
    moreover have "encode_rune (of_char c) = [c]" using 2 by (simp add: encode_rune_def bytes_str_def)
    ultimately show ?thesis by (simp only:)
  next
    case 3
    then show ?thesis using assms by (simp add: json_escape_def unquote_Cons)
  qed
qed

lemma unquote_escape_text: "valid_utf8 s \<Longrightarrow> unquote (escape_text s) = Some s"
proof (induction s rule: valid_utf8.induct)
  case (1 s)
  show ?case
  proof (cases s)
    case (Cons c cs)
    then obtain n where n: "rune_len s = Some n" "valid_utf8 (drop n s)"
      using "1.prems" by (subst (asm) valid_utf8.simps) (auto split: option.splits)
    note ih = "1.IH" [OF n]
    show ?thesis
    proof (cases "in_range 0 0x7F c")
      case True
      then have "n = 1" using n(1) Cons by simp
      with True show ?thesis using ih Cons by (simp add: unquote_escape escape_text_def prepend_text_def)
    next
      case False
      have "list_all (in_range 0x80 0xFF) (take n s)"
        using rune_high [of c cs n] n(1) False Cons by (auto simp: list_all_iff)
      then have "escape_text (take n s) = take n s" by (rule escape_text_high)
      then have "escape_text s = take n s @ escape_text (drop n s)"
        unfolding escape_text_def by (metis append_take_drop_id concat_append map_append)
      then show ?thesis using unquote_high [of c cs n "escape_text (drop n s)"] n False ih Cons by (simp add: prepend_text_def)
    qed
  qed (simp add: escape_text_def)
qed

lemma run_append: "scan_run st (xs @ ys) = (case scan_run st xs of None \<Rightarrow> None | Some st' \<Rightarrow> scan_run st' ys)"
  by (induction st xs rule: scan_run.induct) (auto split: option.splits)

lemma run_escape: "scan_run (InString raw, stk) (json_escape c @ cs) = scan_run (InString (raw @ json_escape c), stk) cs"
proof -
  have "hex_val (hex_char ((of_char c :: nat) mod 16)) \<noteq> None" by simp
  moreover have "(of_char c :: nat) < 0x20 \<Longrightarrow> hex_val (hex_char ((of_char c :: nat) div 16)) \<noteq> None" by simp
  ultimately show ?thesis by (auto simp: json_escape_def)
qed

lemma run_escape_text: "scan_run (InString raw, stk) (escape_text s @ cs) = scan_run (InString (raw @ escape_text s), stk) cs"
  by (induction s arbitrary: raw) (simp_all add: escape_text_def run_escape)

lemma run_quote_text:
  "valid_utf8 s \<Longrightarrow> scan_run (InString [], stk) (escape_text s @ CHR 0x22 # cs) = scan_run (EndValue (VStr s), stk) cs"
  by (simp add: run_escape_text unquote_escape_text)

lemma run_num:
  "num_run n s = Some n' \<Longrightarrow> scan_run (InNum n raw, stk) (s @ cs) = scan_run (InNum n' (raw @ s), stk) cs"
proof (induction s arbitrary: n raw)
  case (Cons c s)
  then obtain n1 where "num_step n c = Some n1" "num_run n1 s = Some n'" by (auto split: option.splits)
  then show ?case using Cons.IH [of n1 "raw @ [c]"] by simp
qed simp

definition value_delimiter :: "char \<Rightarrow> bool" where
  "value_delimiter c \<longleftrightarrow> is_space c \<or> c \<in> {CHR '','', CHR '']'', CHR ''}''}"

lemma delimiter_ends_number: "value_delimiter c \<Longrightarrow> num_step n c = None"
  by (cases n) (auto simp: value_delimiter_def is_space_def digit19_def is_digit_def)

lemma not_number_start [simp]:
  "\<not> is_space CHR 0x22" "\<not> is_space CHR ''['' " "\<not> is_space CHR ''{''" "\<not> is_space CHR ''-''"
  "\<not> is_space CHR ''t''" "\<not> is_space CHR ''f''" "\<not> is_space CHR ''n''" "\<not> is_space CHR '','' "
  "\<not> is_space CHR '':''" "\<not> is_space CHR '']''" "\<not> is_space CHR ''}''" "is_space CHR 0x20"
  by (simp_all add: is_space_def)

lemma digit_not_space: "is_digit c \<Longrightarrow> \<not> is_space c"
  by (auto simp: is_digit_def is_space_def)

lemma digit_not_punctuation:
  "is_digit c \<Longrightarrow> c \<noteq> CHR ''{'' \<and> c \<noteq> CHR ''['' \<and> c \<noteq> CHR '']'' \<and> c \<noteq> CHR 0x22 \<and> c \<noteq> CHR ''-'' \<and>
     c \<noteq> CHR ''t'' \<and> c \<noteq> CHR ''f'' \<and> c \<noteq> CHR ''n''"
  by (auto simp: is_digit_def)

lemma is_digit_0 [simp]: "is_digit CHR ''0''"
  by (simp add: is_digit_def)

lemma number_start:
  assumes "(if d = CHR ''-'' then Some NNeg else num_step NNeg d) = Some n"
  shows "scan_step d (BeginValue, stk) = Some (InNum n [d], stk)"
proof (cases "d = CHR ''-''")
  case True
  then show ?thesis using assms by (simp add: begin_value_def)
next
  case False
  then have d: "is_digit d" using assms by (auto simp: digit19_def split: if_splits)
  then show ?thesis using assms False digit_not_punctuation [OF d] digit_not_space [OF d]
    by (auto simp: begin_value_def digit19_def split: if_splits)
qed

lemma run_number:
  assumes "number_text s" "value_delimiter c"
  shows "scan_run (BeginValue, stk) (s @ c # cs) = scan_run (EndValue (VNum s), stk) (c # cs)"
proof -
  obtain d ds n n' where s: "s = d # ds" "(if d = CHR ''-'' then Some NNeg else num_step NNeg d) = Some n"
      "num_run n ds = Some n'" "num_final n'"
    using assms(1) by (auto simp: number_text_def number_reach_def split: list.splits option.splits)
  note d = number_start [OF s(2), of stk]
  show ?thesis using s(4) d run_num [OF s(3), of "[d]" stk "c # cs"] delimiter_ends_number [OF assms(2), of n']
    by (simp add: s(1))
qed

text \<open>The first byte of a printed value is neither white space nor a closing bracket.\<close>

lemma print_value_start:
  assumes "json_value v"
  obtains c cs where "print_value v = c # cs" "\<not> is_space c" "c \<noteq> CHR '']''"
proof (cases v)
  case (VNum s)
  then obtain c cs where "s = c # cs" "c = CHR ''-'' \<or> is_digit c"
    using assms by (auto simp: number_text_def number_reach_def digit19_def split: list.splits option.splits if_splits)
  then show ?thesis using VNum that [of c cs] digit_not_space digit_not_punctuation by auto
next
  case (VBool b)
  then show ?thesis using that by (cases b) auto
qed (use that in \<open>auto simp: quote_text_def\<close>)

lemma run_or_empty:
  assumes "json_value v"
  shows "scan_run (BeginValueOrEmpty, stk) (print_value v @ cs) = scan_run (BeginValue, stk) (print_value v @ cs)"
  using print_value_start [OF assms] by (metis append_Cons scan_run.simps(2) scan_step.simps(1,2))

text \<open>What reading a printed value does, wherever it stands.\<close>

definition reads_back :: "jvalue \<Rightarrow> bool" where
  "reads_back v \<longleftrightarrow> (\<forall>stk c cs. value_delimiter c \<longrightarrow> length stk + nesting v \<le> maxNestingDepth \<longrightarrow>
     scan_run (BeginValue, stk) (print_value v @ c # cs) = scan_run (EndValue v, stk) (c # cs))"

lemma delimiters [simp]: "value_delimiter CHR '',''" "value_delimiter CHR '']''" "value_delimiter CHR ''}''" "value_delimiter CHR 0x20"
  by (simp_all add: value_delimiter_def)

lemma run_elements:
  "list_all reads_back (v # vs) \<Longrightarrow> Suc (length stk) + foldr (\<lambda>v. max (nesting v)) (v # vs) 0 \<le> maxNestingDepth \<Longrightarrow>
   scan_run (BeginValue, InArr acc # stk) (Join (CHR '','') (map print_value (v # vs)) @ CHR '']'' # cs)
     = scan_run (EndValue (VArr (acc @ v # vs)), stk) cs"
proof (induction vs arbitrary: v acc)
  case Nil
  then show ?case by (simp add: reads_back_def)
next
  case (Cons w vs)
  have "scan_run (BeginValue, InArr acc # stk) (print_value v @ CHR '','' # Join (CHR '','') (map print_value (w # vs)) @ CHR '']'' # cs)
      = scan_run (EndValue v, InArr acc # stk) (CHR '','' # Join (CHR '','') (map print_value (w # vs)) @ CHR '']'' # cs)"
    using Cons.prems by (simp add: reads_back_def)
  then show ?case using Cons.prems Cons.IH [of w "acc @ [v]"] by simp
qed

lemma run_members:
  "list_all (\<lambda>(k, v). valid_utf8 k \<and> reads_back v) ((k, v) # ms) \<Longrightarrow>
   Suc (length stk) + foldr (\<lambda>(k, v). max (nesting v)) ((k, v) # ms) 0 \<le> maxNestingDepth \<Longrightarrow>
   scan_run (BeginString, InKey acc # stk)
       (Join (CHR '','') (map (\<lambda>(k, v). quote_text k @ '':'' @ print_value v) ((k, v) # ms)) @ CHR ''}'' # cs)
     = scan_run (EndValue (VObj (acc @ (k, v) # ms)), stk) cs"
proof (induction ms arbitrary: k v acc)
  case Nil
  then show ?case by (simp add: reads_back_def quote_text_def run_quote_text)
next
  case (Cons m ms)
  obtain k' v' where m: "m = (k', v')" by (cases m)
  let ?rest = "Join (CHR '','') (map (\<lambda>(k, v). quote_text k @ '':'' @ print_value v) ((k', v') # ms)) @ CHR ''}'' # cs"
  have "scan_run (BeginValue, InVal acc k # stk) (print_value v @ CHR '','' # ?rest)
      = scan_run (EndValue v, InVal acc k # stk) (CHR '','' # ?rest)"
    using Cons.prems by (simp add: reads_back_def)
  then show ?case using Cons.prems Cons.IH [of k' v' "acc @ [(k, v)]"] m
    by (simp add: quote_text_def run_quote_text)
qed

lemma print_reads_back: "json_value v \<Longrightarrow> reads_back v"
proof (induction v rule: print_value.induct)
  case (3 s)
  then show ?case by (simp add: reads_back_def run_number del: scan_run.simps)
next
  case (4 s)
  then show ?case by (simp add: reads_back_def quote_text_def begin_value_def run_quote_text)
next
  case (5 vs)
  show ?case
  proof (cases vs)
    case Nil
    then show ?thesis by (auto simp: reads_back_def begin_value_def pushParseState_def)
  next
    case (Cons w ws)
    then have "list_all reads_back (w # ws)" "json_value w" using 5 by (auto simp: list_all_iff)
    note r = run_elements [OF this(1), where acc = "[]"] and w = run_or_empty [OF this(2)]
    obtain t where "Join (CHR '','') (map print_value vs) = print_value w @ t" using Cons by (cases ws) auto
    then have "scan_run (BeginValueOrEmpty, stk) (Join (CHR '','') (map print_value vs) @ u)
        = scan_run (BeginValue, stk) (Join (CHR '','') (map print_value vs) @ u)" for stk u by (simp add: w)
    then show ?thesis using r Cons
      by (auto simp: reads_back_def begin_value_def pushParseState_def simp del: list.map)
  qed
next
  case (6 ms)
  show ?case
  proof (cases ms)
    case Nil
    then show ?thesis by (auto simp: reads_back_def begin_value_def pushParseState_def)
  next
    case (Cons m ns)
    obtain k w where m: "m = (k, w)" by (cases m)
    have "list_all (\<lambda>(k, v). valid_utf8 k \<and> reads_back v) ((k, w) # ns)"
      using 6 Cons m by (fastforce simp: list_all_iff)
    note r = run_members [OF this]
    have "scan_run (BeginStringOrEmpty, stk) (quote_text k @ t) = scan_run (BeginString, stk) (quote_text k @ t)" for stk t
      by (simp add: quote_text_def)
    then show ?thesis using r Cons m
      by (cases ns) (auto simp: reads_back_def begin_value_def pushParseState_def)
  qed
qed (auto simp: reads_back_def begin_value_def)

subsection \<open>The two readers\<close>

text \<open>What \<^verbatim>\<open>Unmarshal\<close> accepts, \<^verbatim>\<open>Decoder.Decode\<close> accepts with the same value.\<close>

definition plain_lit :: "jstate \<Rightarrow> bool" where
  "plain_lit st \<longleftrightarrow> (\<forall>rest v. fst st = InLit rest v \<longrightarrow> CHR 0x20 \<notin> set rest)"

lemma end_value_no_literal: "end_value c v stk = Some st \<Longrightarrow> fst st \<noteq> InLit r w"
  by (induction c v stk rule: end_value.induct) (auto split: if_splits parse_frame.splits jvalue.splits)

lemma step_plain_lit: "scan_step c st = Some st' \<Longrightarrow> plain_lit st \<Longrightarrow> plain_lit st'"
  by (induction c st rule: scan_step.induct)
    (auto simp: plain_lit_def begin_value_def pushParseState_def dest: end_value_no_literal
      split: if_splits option.splits list.splits)

lemma run_top: "scan_run (EndValue w, []) s = Some (EndValue v, []) \<Longrightarrow> v = w"
  by (induction s) (auto split: if_splits)

lemma end_value_top: "is_space c \<Longrightarrow> end_value c w stk = Some (EndValue v, []) \<longleftrightarrow> stk = [] \<and> v = w"
  by (cases stk) auto

lemma top_value_space:
  assumes "scan_step (CHR 0x20) st = Some (EndValue v, [])" "plain_lit st"
  shows "top_value (CHR 0x20) st = Some v"
  using assms
  by (induction "CHR 0x20" st rule: scan_step.induct)
    (auto simp: plain_lit_def end_value_top split: if_splits option.splits list.splits)

lemma top_value_step:
  assumes "top_value c st = Some w" "scan_step c st = Some st'"
  shows "st' = (EndValue w, [])"
  using assms by (induction c st rule: top_value.induct) (auto split: if_splits option.splits)

lemma readValue_run:
  "scan_run st (s @ [CHR 0x20]) = Some (EndValue v, []) \<Longrightarrow> plain_lit st \<Longrightarrow> readValue st s = Inr v"
proof (induction s arbitrary: st)
  case Nil
  then show ?case using top_value_space [of st v] by (auto split: option.splits)
next
  case (Cons c s)
  then obtain st' where st': "scan_step c st = Some st'" "scan_run st' (s @ [CHR 0x20]) = Some (EndValue v, [])"
    by (auto split: option.splits)
  show ?case
  proof (cases "top_value c st")
    case None
    then show ?thesis using Cons.IH [OF st'(2)] step_plain_lit [OF st'(1) Cons.prems(2)] st'(1) by simp
  next
    case (Some w)
    then show ?thesis using top_value_step [OF Some st'(1)] run_top st'(2) by auto
  qed
qed

lemma decode_text_parse: "parse_text s = Inr v \<Longrightarrow> decode_text s = Inr v"
  using readValue_run [of "(BeginValue, [])" s v]
  by (auto simp: parse_text_def decode_text_def plain_lit_def split: option.splits scan_state.splits list.splits)

lemma parse_print: "json_value v \<Longrightarrow> nesting v \<le> maxNestingDepth \<Longrightarrow> parse_text (print_value v) = Inr v"
  using print_reads_back [of v] by (simp add: reads_back_def parse_text_def)

lemma decode_print: "json_value v \<Longrightarrow> nesting v \<le> maxNestingDepth \<Longrightarrow> decode_text (print_value v) = Inr v"
  by (intro decode_text_parse parse_print)

lemma number_text_show_nat: "number_text (show_nat n)" "number_text (CHR ''-'' # show_nat n)"
proof -
  have scan_run: "num_run N1 ds = Some N1" if "list_all is_digit ds" for ds using that by (induction ds) auto
  obtain d ds where d: "show_nat n = d # ds" by (cases "show_nat n") auto
  have digits: "is_digit d" "list_all is_digit ds" using d show_nat_digits [of _ n] by (auto simp: list_all_iff)
  have zero: "d = CHR ''0'' \<Longrightarrow> ds = []" using show_nat_hd [of n] d by (auto simp: show_nat.simps [of 0])
  have dd: "d \<noteq> CHR ''-''" using digits(1) by auto
  show "number_text (show_nat n)" "number_text (CHR ''-'' # show_nat n)"
    using d digits zero dd scan_run [OF digits(2)] by (auto simp: number_text_def number_reach_def digit19_def)
qed

lemma number_text_show_int [simp]: "number_text (show_int n)"
  by (simp add: show_int_def number_text_show_nat)

end
