(* ===== verification/JsonDecode.thy ===== *)
theory JsonDecode
  imports JsonText Json Proto "HOL-Library.Multiset"
begin

text \<open>
  Storing a parsed JSON value into a Go struct, as \<^verbatim>\<open>encoding/json\<close> does it by reflection: keys are
  matched exactly and otherwise without regard to case, \<^verbatim>\<open>null\<close> and unknown keys leave the struct
  alone, the last of several equal keys wins, and a value of the wrong type is remembered as the
  error of the call while decoding goes on. The struct of the scoring protocol is decoded here.
\<close>

subsection \<open>Storing scalars\<close>

definition type_error :: "string \<Rightarrow> string \<Rightarrow> json_error option" where
  "type_error found field = Some (UnmarshalTypeError found field)"

fun value_kind :: "jvalue \<Rightarrow> string" where
  "value_kind VNull = ''null''"
| "value_kind (VBool b) = ''bool''"
| "value_kind (VNum s) = ''number''"
| "value_kind (VStr s) = ''string''"
| "value_kind (VArr vs) = ''array''"
| "value_kind (VObj ms) = ''object''"

fun store_string :: "string \<Rightarrow> jvalue \<Rightarrow> string \<Rightarrow> json_error option \<times> string" where
  "store_string f VNull old = (None, old)"
| "store_string f (VStr s) old = (None, s)"
| "store_string f v old = (type_error (value_kind v) f, old)"

text \<open>\<^verbatim>\<open>strconv.ParseInt\<close> of the literal, then \<^verbatim>\<open>OverflowInt\<close> for the width of the field.\<close>

fun store_int :: "nat \<Rightarrow> string \<Rightarrow> jvalue \<Rightarrow> 'w::len word \<Rightarrow> json_error option \<times> 'w word" where
  "store_int bits f VNull old = (None, old)"
| "store_int bits f (VNum s) old =
     (case ParseInt s of
        Inl err \<Rightarrow> (type_error (''number '' @ s) f, old)
      | Inr n \<Rightarrow>
          if n < - (2 ^ (bits - 1)) \<or> 2 ^ (bits - 1) \<le> n then (type_error (''number '' @ s) f, old)
          else (None, of_int n))"
| "store_int bits f v old = (type_error (value_kind v) f, old)"

fun store_float :: "string \<Rightarrow> jvalue \<Rightarrow> gofloat \<Rightarrow> json_error option \<times> gofloat" where
  "store_float f VNull old = (None, old)"
| "store_float f (VNum s) old =
     (case ParseFloat s of
        Inl err \<Rightarrow> (type_error (''number '' @ s) f, old)
      | Inr x \<Rightarrow> (None, x))"
| "store_float f v old = (type_error (value_kind v) f, old)"

subsection \<open>Structs\<close>

text \<open>
  \<^verbatim>\<open>foldName\<close> on a valid UTF-8 key. The long s and the Kelvin sign are the only runes outside ASCII
  that fold to an ASCII letter; other runes are left as they are, since no field name has one.
\<close>

fun fold_name :: "string \<Rightarrow> string" where
  "fold_name [] = []"
| "fold_name (c # cs) =
     (if in_range 97 122 c then char_of ((of_char c :: nat) - 32) # fold_name cs
      else if take 2 (c # cs) = bytes_str [0xC5, 0xBF] then CHR ''S'' # fold_name (drop 1 cs)
      else if take 3 (c # cs) = bytes_str [0xE2, 0x84, 0xAA] then CHR ''K'' # fold_name (drop 2 cs)
      else c # fold_name cs)"

type_synonym 's field = "string \<times> (jvalue \<Rightarrow> 's \<Rightarrow> json_error option \<times> 's)"

definition find_field :: "'s field list \<Rightarrow> string \<Rightarrow> (jvalue \<Rightarrow> 's \<Rightarrow> json_error option \<times> 's) option" where
  "find_field fs k =
     (case map_of fs k of
        Some st \<Rightarrow> Some st
      | None \<Rightarrow> map_of (map (\<lambda>(n, st). (fold_name n, st)) fs) (fold_name k))"

text \<open>One member; the first error is the one that is kept.\<close>

definition decode_member :: "'s field list \<Rightarrow> string \<times> jvalue \<Rightarrow> json_error option \<times> 's \<Rightarrow> json_error option \<times> 's" where
  "decode_member fs m st =
     (case find_field fs (fst m) of
        None \<Rightarrow> st
      | Some store \<Rightarrow>
          (let (err, s') = store (snd m) (snd st) in (if fst st = None then err else fst st, s')))"

fun decode_struct :: "'s field list \<Rightarrow> jvalue \<Rightarrow> 's \<Rightarrow> json_error option \<times> 's" where
  "decode_struct fs VNull s = (None, s)"
| "decode_struct fs (VObj ms) s = fold (decode_member fs) ms (None, s)"
| "decode_struct fs v s = (type_error (value_kind v) [], s)"

definition finish_decode :: "json_error option \<times> 's \<Rightarrow> json_error + 's" where
  "finish_decode r = (case fst r of Some err \<Rightarrow> Inl err | None \<Rightarrow> Inr (snd r))"

text \<open>\<^verbatim>\<open>json.Unmarshal(data, &v)\<close> and \<^verbatim>\<open>json.NewDecoder(r).Decode(&v)\<close> for a struct \<open>v\<close> with these fields.\<close>

definition Unmarshal :: "'s field list \<Rightarrow> 's \<Rightarrow> string \<Rightarrow> json_error + 's" where
  "Unmarshal fs s data =
     (case parse_text data of Inl err \<Rightarrow> Inl err | Inr v \<Rightarrow> finish_decode (decode_struct fs v s))"

definition Decode :: "'s field list \<Rightarrow> 's \<Rightarrow> string \<Rightarrow> json_error + 's" where
  "Decode fs s data =
     (case decode_text data of Inl err \<Rightarrow> Inl err | Inr v \<Rightarrow> finish_decode (decode_struct fs v s))"

definition field_of ::
    "string \<Rightarrow> (string \<Rightarrow> jvalue \<Rightarrow> 'a \<Rightarrow> json_error option \<times> 'a) \<Rightarrow> ('s \<Rightarrow> 'a) \<Rightarrow> ('a \<Rightarrow> 's \<Rightarrow> 's) \<Rightarrow> 's field" where
  "field_of name store get put =
     (name, \<lambda>v s. let (err, x) = store name v (get s) in (err, put x s))"

subsection \<open>The feature vector\<close>

definition feature_fields :: "FeatureVector field list" where
  "feature_fields =
     [field_of ''client_ip'' store_string ClientIp (\<lambda>x. ClientIp_update (\<lambda>_. x)),
      field_of ''ja3_hash'' store_string Ja3Hash (\<lambda>x. Ja3Hash_update (\<lambda>_. x)),
      field_of ''user_agent_hash'' store_string UserAgentHash (\<lambda>x. UserAgentHash_update (\<lambda>_. x)),
      field_of ''req_rate_1s'' store_float ReqRate_1S (\<lambda>x. ReqRate_1S_update (\<lambda>_. x)),
      field_of ''req_rate_10s'' store_float ReqRate_10S (\<lambda>x. ReqRate_10S_update (\<lambda>_. x)),
      field_of ''req_rate_60s'' store_float ReqRate_60S (\<lambda>x. ReqRate_60S_update (\<lambda>_. x)),
      field_of ''http_method'' store_string HttpMethod (\<lambda>x. HttpMethod_update (\<lambda>_. x)),
      field_of ''uri_hash'' store_string UriHash (\<lambda>x. UriHash_update (\<lambda>_. x)),
      field_of ''content_length'' (store_int 64) ContentLength (\<lambda>x. ContentLength_update (\<lambda>_. x)),
      field_of ''header_count'' (store_int 32) HeaderCount (\<lambda>x. HeaderCount_update (\<lambda>_. x)),
      field_of ''is_http2'' (store_int 32) IsHttp2 (\<lambda>x. IsHttp2_update (\<lambda>_. x)),
      field_of ''unix_timestamp'' (store_int 64) UnixTimestamp (\<lambda>x. UnixTimestamp_update (\<lambda>_. x))]"

definition unmarshal_features :: "string \<Rightarrow> json_error + FeatureVector" where
  "unmarshal_features line = Unmarshal feature_fields zero_FeatureVector line"

subsection \<open>What decoding leaves in the struct\<close>

lemma number_text_start:
  assumes "number_text s"
  shows "is_digit (hd s) \<or> (\<exists>d ds. s = CHR ''-'' # d # ds \<and> is_digit d)"
proof (cases s)
  case Nil
  then show ?thesis using assms by (simp add: number_text_def number_reach_def)
next
  case (Cons c cs)
  then show ?thesis using assms
    by (cases cs) (auto simp: number_text_def number_reach_def digit19_def split: if_splits option.splits)
qed

lemma lower_digit: "is_digit d \<Longrightarrow> lower d = d \<and> d \<noteq> CHR ''i'' \<and> d \<noteq> CHR ''+'' \<and> d \<noteq> CHR ''-'' \<and> d \<noteq> CHR ''n''"
  by (auto simp: is_digit_def lower_def)

lemma number_text_not_special: "number_text s \<Longrightarrow> special_float s = None"
proof -
  assume s: "number_text s"
  then have "s \<noteq> []" by (auto simp: number_text_def number_reach_def)
  with number_text_start [OF s] consider d ds where "s = d # ds" "is_digit d"
    | d ds where "s = CHR ''-'' # d # ds" "is_digit d" by (cases s) auto
  then show ?thesis
  proof cases
    case 1
    then show ?thesis using lower_digit [of d] by (simp add: special_float_def)
  next
    case 2
    moreover have "lower CHR ''-'' = CHR ''-''" by (simp add: lower_def)
    ultimately show ?thesis using lower_digit [of d] by (simp add: special_float_def)
  qed
qed

text \<open>A number literal is read as a finite \<^verbatim>\<open>float64\<close> or refused.\<close>

lemma ParseFloat_number: "number_text s \<Longrightarrow> ParseFloat s = Inr f \<Longrightarrow> \<exists>x y. f64_of_rat x = f \<and> f = Fin y"
  by (auto simp: ParseFloat_def number_text_not_special split: option.splits gofloat.splits)
    (metis gofloat.distinct(3,5))?

text \<open>A predicate on the struct that every field keeps holds of whatever decoding returns.\<close>

definition fields_keep :: "'s field list \<Rightarrow> ('s \<Rightarrow> bool) \<Rightarrow> bool" where
  "fields_keep fs P \<longleftrightarrow> list_all (\<lambda>(n, store). \<forall>v s. json_value v \<longrightarrow> P s \<longrightarrow> P (snd (store v s))) fs"

lemma find_field_in: "find_field fs k = Some st \<Longrightarrow> \<exists>n. (n, st) \<in> set fs"
  by (auto simp: find_field_def dest!: map_of_SomeD split: option.splits)

lemma decode_member_keeps:
  assumes "fields_keep fs P" "json_value (snd m)" "P (snd r)"
  shows "P (snd (decode_member fs m r))"
proof (cases "find_field fs (fst m)")
  case (Some store)
  then obtain n where "(n, store) \<in> set fs" using find_field_in by blast
  then have "P (snd (store (snd m) (snd r)))" using assms by (auto simp: fields_keep_def list_all_iff)
  then show ?thesis using Some by (simp add: decode_member_def Let_def split_beta)
qed (use assms in \<open>simp add: decode_member_def\<close>)

lemma decode_struct_keeps:
  assumes "fields_keep fs P" "json_value v" "P s"
  shows "P (snd (decode_struct fs v s))"
proof (cases v)
  case (VObj ms)
  have "list_all (json_value \<circ> snd) ms \<Longrightarrow> P (snd r) \<Longrightarrow> P (snd (fold (decode_member fs) ms r))" for r
    by (induction ms arbitrary: r) (auto simp: decode_member_keeps [OF assms(1)])
  moreover have "list_all (json_value \<circ> snd) ms" using assms(2) VObj by (auto simp: list_all_iff)
  ultimately show ?thesis using assms(3) VObj by simp
qed (use assms in auto)

lemma Unmarshal_keeps:
  assumes "fields_keep fs P" "P s" "Unmarshal fs s data = Inr s'"
  shows "P s'"
proof -
  obtain v where v: "parse_text data = Inr v" "decode_struct fs v s = (None, s')"
    using assms(3) by (auto simp: Unmarshal_def finish_decode_def split: sum.splits option.splits) (metis prod.collapse)
  show ?thesis using decode_struct_keeps [OF assms(1) parse_text_json [OF v(1)] assms(2)] v(2) by simp
qed

text \<open>
  A feature vector as the engine and the scoring client need it: strings the protobuf encoder
  accepts, and rates JSON can express.
\<close>

definition sound_features :: "FeatureVector \<Rightarrow> bool" where
  "sound_features fv \<longleftrightarrow>
     list_all valid_utf8 [ClientIp fv, Ja3Hash fv, UserAgentHash fv, HttpMethod fv, UriHash fv] \<and>
     list_all finite_float [ReqRate_1S fv, ReqRate_10S fv, ReqRate_60S fv]"

lemma store_string_utf8: "json_value v \<Longrightarrow> valid_utf8 old \<Longrightarrow> valid_utf8 (snd (store_string f v old))"
  by (cases v) auto

lemma store_float_finite: "json_value v \<Longrightarrow> finite_float old \<Longrightarrow> finite_float (snd (store_float f v old))"
  by (cases v) (auto dest: ParseFloat_number split: sum.splits)

lemma feature_fields_sound: "fields_keep feature_fields sound_features"
  by (auto simp: fields_keep_def feature_fields_def field_of_def sound_features_def Let_def split_beta
      store_string_utf8 store_float_finite)

subsection \<open>Reading a feature vector that was written out\<close>

text \<open>The members of the object that denotes a feature vector with whole numbers as rates.\<close>

definition feature_members :: "int \<Rightarrow> int \<Rightarrow> int \<Rightarrow> FeatureVector \<Rightarrow> (string \<times> jvalue) list" where
  "feature_members r1 r10 r60 fv =
     [(''client_ip'', VStr (ClientIp fv)), (''ja3_hash'', VStr (Ja3Hash fv)),
      (''user_agent_hash'', VStr (UserAgentHash fv)), (''req_rate_1s'', VNum (show_int r1)),
      (''req_rate_10s'', VNum (show_int r10)), (''req_rate_60s'', VNum (show_int r60)),
      (''http_method'', VStr (HttpMethod fv)), (''uri_hash'', VStr (UriHash fv)),
      (''content_length'', VNum (show_int (sint (ContentLength fv)))),
      (''header_count'', VNum (show_int (sint (HeaderCount fv)))),
      (''is_http2'', VNum (show_int (sint (IsHttp2 fv)))),
      (''unix_timestamp'', VNum (show_int (sint (UnixTimestamp fv))))]"

definition feature_updates :: "FeatureVector \<Rightarrow> (FeatureVector \<Rightarrow> FeatureVector) list" where
  "feature_updates fv =
     [ClientIp_update (\<lambda>_. ClientIp fv), Ja3Hash_update (\<lambda>_. Ja3Hash fv),
      UserAgentHash_update (\<lambda>_. UserAgentHash fv), ReqRate_1S_update (\<lambda>_. ReqRate_1S fv),
      ReqRate_10S_update (\<lambda>_. ReqRate_10S fv), ReqRate_60S_update (\<lambda>_. ReqRate_60S fv),
      HttpMethod_update (\<lambda>_. HttpMethod fv), UriHash_update (\<lambda>_. UriHash fv),
      ContentLength_update (\<lambda>_. ContentLength fv), HeaderCount_update (\<lambda>_. HeaderCount fv),
      IsHttp2_update (\<lambda>_. IsHttp2 fv), UnixTimestamp_update (\<lambda>_. UnixTimestamp fv)]"

lemma decode_member_exact:
  "(case map_of fs k of None \<Rightarrow> False | Some store \<Rightarrow> \<forall>s. store v s = (None, u s)) \<Longrightarrow>
   decode_member fs (k, v) = map_prod id u"
  by (auto simp: decode_member_def find_field_def fun_eq_iff split: option.splits)

lemma store_int64 [simp]: "store_int 64 f (VNum (show_int (sint (n :: int64)))) old = (None, n)"
  using fits_int64_sint [of n] by (simp add: ParseInt_show_int fits_int64_iff)

lemma store_int32 [simp]: "store_int 32 f (VNum (show_int (sint (n :: int32)))) old = (None, n)"
proof -
  have "- (2 ^ 31) \<le> sint n \<and> sint n < 2 ^ 31" using sint_range_size [of n] by (simp add: word_size)
  then show ?thesis by (simp add: ParseInt_show_int fits_int64_iff)
qed

lemma store_float_int: "\<bar>r\<bar> < 2 ^ 53 \<Longrightarrow> store_float f (VNum (show_int r)) old = (None, Fin (of_int r))"
  using f64_of_int_exact [of r]
  by (simp add: ParseFloat_def number_text_not_special readFloat_show_int f64_of_int_def)

lemma feature_members_decode:
  assumes "ReqRate_1S fv = Fin (of_int r1)" "ReqRate_10S fv = Fin (of_int r10)" "ReqRate_60S fv = Fin (of_int r60)"
    and "\<bar>r1\<bar> < 2 ^ 53" "\<bar>r10\<bar> < 2 ^ 53" "\<bar>r60\<bar> < 2 ^ 53"
  shows "map (decode_member feature_fields) (feature_members r1 r10 r60 fv) = map (map_prod id) (feature_updates fv)"
  unfolding feature_members_def feature_updates_def list.map
  by (intro arg_cong2 [where f = Cons] refl decode_member_exact;
      simp add: feature_fields_def field_of_def store_float_int [OF assms(4)] store_float_int [OF assms(5)]
        store_float_int [OF assms(6)] assms(1-3) del: store_int.simps store_float.simps)

lemma feature_updates_commute:
  "u \<in> set (feature_updates fv) \<Longrightarrow> u' \<in> set (feature_updates fv) \<Longrightarrow> u \<circ> u' = u' \<circ> u"
  unfolding feature_updates_def by (auto simp: fun_eq_iff)

lemma feature_updates_all: "fold id (feature_updates fv) s = fv"
  by (cases fv; cases s) (simp add: feature_updates_def)

lemma fold_map_prod: "fold id (map (map_prod id) us) (e, s) = (e, fold id us s)"
  by (induction us arbitrary: s) auto

lemma fold_as_id: "fold f xs = fold id (map f xs)"
  by (simp add: fold_map)

lemma decode_feature_members:
  assumes "mset ms = mset (feature_members r1 r10 r60 fv)"
    and "ReqRate_1S fv = Fin (of_int r1)" "ReqRate_10S fv = Fin (of_int r10)" "ReqRate_60S fv = Fin (of_int r60)"
    and "\<bar>r1\<bar> < 2 ^ 53" "\<bar>r10\<bar> < 2 ^ 53" "\<bar>r60\<bar> < 2 ^ 53"
  shows "fold (decode_member feature_fields) ms (None, s) = (None, fv)"
proof -
  let ?D = "decode_member feature_fields" and ?ms = "feature_members r1 r10 r60 fv"
  note D = feature_members_decode [OF assms(2-7)]
  have "?D x \<circ> ?D y = ?D y \<circ> ?D x" if "x \<in> set ?ms" "y \<in> set ?ms" for x y
  proof -
    have "?D x \<in> set (map (map_prod id) (feature_updates fv))" "?D y \<in> set (map (map_prod id) (feature_updates fv))"
      using that unfolding D [symmetric] by auto
    then obtain u u' where "?D x = map_prod id u" "?D y = map_prod id u'"
        "u \<in> set (feature_updates fv)" "u' \<in> set (feature_updates fv)" by auto
    then show ?thesis using feature_updates_commute [of u fv u'] by (simp add: map_prod.comp)
  qed
  then have "fold ?D ?ms = fold ?D ms" by (rule fold_multiset_equiv) (simp_all add: assms(1))
  then have "fold ?D ms (None, s) = fold id (map (map_prod id) (feature_updates fv)) (None, s)"
    by (simp only: fold_as_id [of ?D ?ms] D)
  then show ?thesis by (simp only: fold_map_prod feature_updates_all)
qed

subsection \<open>Properties\<close>



text \<open>
  C20. The wire format loses nothing: an object with the twelve members of a feature vector, in any order,
  is decoded to exactly that vector, for strings of valid UTF-8 and rates that are whole numbers below
  two to the 53rd.
\<close>

theorem feature_line_decodes:
  assumes "mset ms = mset (feature_members r1 r10 r60 fv)"
    and "list_all valid_utf8 [ClientIp fv, Ja3Hash fv, UserAgentHash fv, HttpMethod fv, UriHash fv]"
    and "ReqRate_1S fv = Fin (of_int r1)" "ReqRate_10S fv = Fin (of_int r10)" "ReqRate_60S fv = Fin (of_int r60)"
    and "\<bar>r1\<bar> < 2 ^ 53" "\<bar>r10\<bar> < 2 ^ 53" "\<bar>r60\<bar> < 2 ^ 53"
  shows "unmarshal_features (print_value (VObj ms)) = Inr fv"
proof -
  have set: "set ms = set (feature_members r1 r10 r60 fv)" using assms(1) by (rule mset_eq_setD)
  have "list_all (\<lambda>(k, v). valid_utf8 k \<and> json_value v) (feature_members r1 r10 r60 fv)"
    using assms(2) by (simp add: feature_members_def valid_utf8_all_ascii in_range_def)
  then have "list_all (\<lambda>(k, v). valid_utf8 k \<and> json_value v) ms" by (simp add: list_all_iff set)
  moreover have "list_all (\<lambda>(k, v). nesting v = 0) (feature_members r1 r10 r60 fv)" by (simp add: feature_members_def)
  then have "list_all (\<lambda>(k, v). nesting v = 0) ms" by (simp add: list_all_iff set)
  then have "foldr (\<lambda>(k, v). max (nesting v)) ms 0 = 0" by (induction ms) auto
  ultimately have "parse_text (print_value (VObj ms)) = Inr (VObj ms)"
    by (intro parse_print) (simp_all add: maxNestingDepth_def)
  then show ?thesis using decode_feature_members [OF assms(1,3-8)]
    by (simp add: unmarshal_features_def Unmarshal_def finish_decode_def)
qed

abbreviation sample_features :: FeatureVector where
  "sample_features \<equiv>
     \<lparr> ClientIp = ''10.0.0.1'', Ja3Hash = ''none'', UserAgentHash = ''ua'', ReqRate_1S = Fin (of_int 3), ReqRate_10S = Fin (of_int 20),
       ReqRate_60S = Fin (of_int 90), HttpMethod = ''GET'', UriHash = ''u'', ContentLength = 0, HeaderCount = 7,
       IsHttp2 = 1, UnixTimestamp = 1700000000 \<rparr>"

theorem feature_line_decodes_witness:
  "unmarshal_features (print_value (VObj (rev (feature_members 3 20 90 sample_features)))) = Inr sample_features"
  by (rule feature_line_decodes [of _ 3 20 90]) (simp_all add: valid_utf8_all_ascii in_range_def)

end
