(* ===== verification/Nginx.thy ===== *)
theory Nginx
  imports JsonDecode
begin

text \<open>
  \<^verbatim>\<open>nginx/lua\<close>: the access phase that runs before every proxied request. \<^verbatim>\<open>counter.lua\<close> keeps three
  counters per client in a shared dictionary, \<^verbatim>\<open>fingerprint.lua\<close> builds the feature vector, asks the
  decision engine over its socket and acts on the answer, \<^verbatim>\<open>access.lua\<close> calls one after the other.
  OpenResty's dictionary, its sockets, \<^verbatim>\<open>ngx.md5\<close>, \<^verbatim>\<open>tonumber\<close> and \<^verbatim>\<open>cjson\<close> are parameters.
\<close>

subsection \<open>\<^verbatim>\<open>counter.lua\<close>\<close>

record 'd shdict =
  sd_incr :: "'d \<Rightarrow> string \<Rightarrow> int \<Rightarrow> int \<Rightarrow> int \<Rightarrow> (string + int) \<times> 'd"  \<comment> \<open>key, value, init, init\_ttl in seconds\<close>
  sd_get :: "'d \<Rightarrow> string \<Rightarrow> int option"

definition WINDOWS :: "(string \<times> int) list" where
  "WINDOWS = [(''1s'', 1), (''10s'', 10), (''60s'', 60)]"

definition counter_key :: "string \<Rightarrow> string \<Rightarrow> string" where
  "counter_key ip suff = ''ip:'' @ ip @ '':'' @ suff"

record rates =
  req_rate_1s :: int
  req_rate_10s :: int
  req_rate_60s :: int

definition rates_of :: "int list \<Rightarrow> rates" where
  "rates_of rs = \<lparr> req_rate_1s = rs ! 0, req_rate_10s = rs ! 1, req_rate_60s = rs ! 2 \<rparr>"

fun incr_loop :: "'d shdict \<Rightarrow> string \<Rightarrow> (string \<times> int) list \<Rightarrow> 'd \<Rightarrow> int list \<times> 'd" where
  "incr_loop D ip [] d = ([], d)"
| "incr_loop D ip ((suff, ttl) # ws) d =
     (let (r, d1) = sd_incr D d (counter_key ip suff) 1 0 ttl;
          rate = (case r of Inl err \<Rightarrow> 0 | Inr new_val \<Rightarrow> new_val);
          (rs, d2) = incr_loop D ip ws d1
      in (rate # rs, d2))"

definition increment :: "'d shdict \<Rightarrow> string \<Rightarrow> 'd \<Rightarrow> rates \<times> 'd" where
  "increment D ip d = (let (rs, d') = incr_loop D ip WINDOWS d in (rates_of rs, d'))"

definition get_rates :: "'d shdict \<Rightarrow> string \<Rightarrow> 'd \<Rightarrow> rates" where
  "get_rates D ip d =
     rates_of (map (\<lambda>(suff, ttl). case sd_get D d (counter_key ip suff) of None \<Rightarrow> 0 | Some n \<Rightarrow> n) WINDOWS)"

subsection \<open>\<^verbatim>\<open>fingerprint.lua\<close>\<close>

text \<open>
  What the script reads of a request. A header's value is a string, or a table of strings when the
  header is repeated.
\<close>

record ngx_request =
  remote_addr :: "string option"
  http_x_ja3_hash :: "string option"
  ssl_ja3_hash :: "string option"
  ngx_headers :: "(string \<times> jvalue) list"
  request_method :: "string option"
  ngx_uri :: "string option"
  server_protocol :: "string option"
  ngx_time :: int

record lua_vector =
  lv_client_ip :: string
  lv_ja3_hash :: string
  lv_user_agent_hash :: string
  lv_rates :: rates
  lv_http_method :: string
  lv_uri_hash :: string
  lv_content_length :: gofloat
  lv_header_count :: int
  lv_is_http2 :: int
  lv_unix_timestamp :: int

fun or_else :: "'a option \<Rightarrow> 'a \<Rightarrow> 'a" where
  "or_else (Some x) y = x"
| "or_else None y = y"

definition build_vector ::
    "(jvalue \<Rightarrow> string) \<Rightarrow> (jvalue option \<Rightarrow> gofloat option) \<Rightarrow> 'd shdict \<Rightarrow> ngx_request \<Rightarrow> 'd \<Rightarrow> lua_vector" where
  "build_vector md5 tonumber D req d =
     (let headers = ngx_headers req;
          client_ip = or_else (remote_addr req) ''0.0.0.0'';
          ja3_hash = or_else (http_x_ja3_hash req) (or_else (ssl_ja3_hash req) ''none'');
          ua = or_else (map_of headers ''user-agent'') (VStr []);
          proto = or_else (server_protocol req) []
      in \<lparr> lv_client_ip = client_ip, lv_ja3_hash = ja3_hash, lv_user_agent_hash = md5 ua,
           lv_rates = get_rates D client_ip d, lv_http_method = or_else (request_method req) ''GET'',
           lv_uri_hash = md5 (VStr (or_else (ngx_uri req) ''/'')),
           lv_content_length = or_else (tonumber (map_of headers ''content-length'')) (Fin 0),
           lv_header_count = int (length headers),
           lv_is_http2 = (if proto = ''HTTP/2.0'' \<or> proto = ''HTTP/2'' then 1 else 0),
           lv_unix_timestamp = ngx_time req \<rparr>)"

text \<open>A cosocket: the errors of connecting and sending, and what is received after what was sent.\<close>

record sock =
  sk_connect :: "string \<Rightarrow> string option"
  sk_send :: "string \<Rightarrow> string option"
  sk_receive :: "string \<Rightarrow> string + string"

definition SOCKET_PATH :: string where
  "SOCKET_PATH = ''unix:/tmp/decision.sock''"

definition query_engine :: "sock \<Rightarrow> string \<Rightarrow> string + string" where
  "query_engine sk payload =
     (case sk_connect sk SOCKET_PATH of
        Some err \<Rightarrow> Inl (''connect: '' @ err)
      | None \<Rightarrow>
          (case sk_send sk (payload @ [CHR 0x0A]) of
             Some err \<Rightarrow> Inl (''send: '' @ err)
           | None \<Rightarrow>
               (case sk_receive sk (payload @ [CHR 0x0A]) of
                  Inl err \<Rightarrow> Inl (''read: '' @ err)
                | Inr line \<Rightarrow> Inr line)))"

text \<open>
  Where a request leaves the access phase: passed on, answered with a status and perhaps a
  \<^verbatim>\<open>Retry-After\<close> header, or a Lua error was raised (nginx then answers 500).
\<close>

datatype verdict = PassOn | Exit nat "gofloat option" | LuaRaised

text \<open>Indexing a decoded value: the last of several equal keys counts; strings and arrays have no such field.\<close>

fun lua_index :: "jvalue \<Rightarrow> string \<Rightarrow> jvalue option option" where
  "lua_index (VObj ms) k = Some (map_of (rev ms) k)"
| "lua_index (VArr vs) k = Some None"
| "lua_index (VStr s) k = Some None"
| "lua_index v k = None"

definition act_on :: "(jvalue option \<Rightarrow> gofloat option) \<Rightarrow> jvalue \<Rightarrow> verdict" where
  "act_on tonumber resp =
     (case lua_index resp ''action'' of
        None \<Rightarrow> LuaRaised
      | Some action \<Rightarrow>
          if action = Some (VStr ''block'') then Exit 403 None
          else if action = Some (VStr ''throttle'') then
            (case lua_index resp ''retry_after'' of
               None \<Rightarrow> LuaRaised
             | Some ra \<Rightarrow> Exit 429 (Some (or_else (tonumber ra) (Fin 5))))
          else PassOn)"

definition ngx_evaluate ::
    "(jvalue \<Rightarrow> string) \<Rightarrow> (jvalue option \<Rightarrow> gofloat option) \<Rightarrow> (lua_vector \<Rightarrow> string option)
     \<Rightarrow> (string \<Rightarrow> jvalue option) \<Rightarrow> 'd shdict \<Rightarrow> sock \<Rightarrow> ngx_request \<Rightarrow> 'd \<Rightarrow> verdict" where
  "ngx_evaluate md5 tonumber cjson_encode cjson_decode D sk req d =
     (case cjson_encode (build_vector md5 tonumber D req d) of
        None \<Rightarrow> PassOn
      | Some payload \<Rightarrow>
          (case query_engine sk payload of
             Inl query_err \<Rightarrow> PassOn
           | Inr resp_body \<Rightarrow>
               (case cjson_decode resp_body of
                  None \<Rightarrow> PassOn
                | Some resp \<Rightarrow> if resp = VBool False then PassOn else act_on tonumber resp)))"

subsection \<open>\<^verbatim>\<open>access.lua\<close>\<close>

text \<open>Concatenating a nil address raises.\<close>

definition access ::
    "(jvalue \<Rightarrow> string) \<Rightarrow> (jvalue option \<Rightarrow> gofloat option) \<Rightarrow> (lua_vector \<Rightarrow> string option)
     \<Rightarrow> (string \<Rightarrow> jvalue option) \<Rightarrow> 'd shdict \<Rightarrow> sock \<Rightarrow> ngx_request \<Rightarrow> 'd \<Rightarrow> verdict \<times> 'd" where
  "access md5 tonumber cjson_encode cjson_decode D sk req d =
     (case remote_addr req of
        None \<Rightarrow> (LuaRaised, d)
      | Some ip \<Rightarrow>
          (let (_, d') = increment D ip d
           in (ngx_evaluate md5 tonumber cjson_encode cjson_decode D sk req d', d')))"

subsection \<open>\<^verbatim>\<open>metrics.lua\<close>\<close>

definition metrics_lines :: "string list" where
  "metrics_lines =
     [''# HELP ratelimiter_requests_total Total requests processed'',
      ''# TYPE ratelimiter_requests_total counter'',
      ''ratelimiter_requests_total 0'']"

subsection \<open>The shared dictionary\<close>

text \<open>
  The documented behaviour of \<^verbatim>\<open>ngx.shared.DICT\<close>: \<open>entry\<close> is the value and expiry time (in milliseconds) of a
  live key. Incrementing a live key keeps its expiry; an absent or expired one is created with
  the initial value and time to live. Time only removes keys whose expiry has come.
\<close>

locale shared_dict =
  fixes D :: "'d shdict" and clock :: "'d \<Rightarrow> int" and entry :: "'d \<Rightarrow> string \<Rightarrow> (int \<times> int) option"
    and tick :: "nat \<Rightarrow> 'd \<Rightarrow> 'd"
  assumes get: "sd_get D d k = map_option fst (entry d k)"
    and incr_live: "entry d k = Some (n, e) \<Longrightarrow>
      \<exists>d'. sd_incr D d k v init ttl = (Inr (n + v), d') \<and> entry d' = (entry d)(k \<mapsto> (n + v, e)) \<and> clock d' = clock d"
    and incr_new: "entry d k = None \<Longrightarrow> 0 < ttl \<Longrightarrow>
      \<exists>d'. sd_incr D d k v init ttl = (Inr (init + v), d') \<and>
        entry d' = (entry d)(k \<mapsto> (init + v, clock d + 1000 * ttl)) \<and> clock d' = clock d"
    and tick_clock: "clock (tick t d) = clock d + int t"
    and tick_entry: "entry (tick t d) k =
      (case entry d k of Some (n, e) \<Rightarrow> if e \<le> clock d + int t then None else Some (n, e) | None \<Rightarrow> None)"

text \<open>A counter that was bumped: what it holds now.\<close>

definition bump :: "int \<Rightarrow> int \<Rightarrow> (int \<times> int) option \<Rightarrow> int \<times> int" where
  "bump now ttl c = (case c of None \<Rightarrow> (1, now + 1000 * ttl) | Some (n, e) \<Rightarrow> (n + 1, e))"

lemma no_colon_suffix:
  "CHR '':'' \<notin> set s \<Longrightarrow> CHR '':'' \<notin> set t \<Longrightarrow> xs @ CHR '':'' # s = ys @ CHR '':'' # t \<longleftrightarrow> xs = ys \<and> s = t"
  by (auto dest: append_Cons_eq_iff [THEN iffD1, rotated -1] simp: append_eq_append_conv2 Cons_eq_append_conv append_eq_Cons_conv)

lemma counter_key_inj:
  assumes "(s, a) \<in> set WINDOWS" "(t, b) \<in> set WINDOWS"
  shows "counter_key ip s = counter_key ip' t \<longleftrightarrow> ip = ip' \<and> s = t"
  using assms no_colon_suffix [of s t ip ip'] by (auto simp: WINDOWS_def counter_key_def)


context shared_dict
begin

lemma incr_one:
  assumes "0 < ttl"
  obtains d' where "sd_incr D d k 1 0 ttl = (Inr (fst (bump (clock d) ttl (entry d k))), d')"
    "entry d' = (entry d)(k \<mapsto> bump (clock d) ttl (entry d k))" "clock d' = clock d"
proof (cases "entry d k")
  case None
  then show ?thesis using incr_new [OF None assms, of 1 0] that by (auto simp: bump_def)
next
  case (Some p)
  then obtain n e where "entry d k = Some (n, e)" by (cases p) simp
  then show ?thesis using incr_live [of d k n e 1 0 ttl] that by (auto simp: bump_def)
qed

lemma incr_loop_spec:
  assumes "set ws \<subseteq> set WINDOWS" "distinct (map fst ws)"
  shows "\<exists>d'. incr_loop D ip ws d = (map (\<lambda>(s, ttl). fst (bump (clock d) ttl (entry d (counter_key ip s)))) ws, d') \<and>
     clock d' = clock d \<and> (\<forall>(s, ttl) \<in> set ws. entry d' (counter_key ip s) = Some (bump (clock d) ttl (entry d (counter_key ip s)))) \<and>
     (\<forall>k. k \<notin> counter_key ip ` fst ` set ws \<longrightarrow> entry d' k = entry d k)"
  using assms
proof (induction ws arbitrary: d)
  case (Cons w ws)
  obtain s ttl where w: "w = (s, ttl)" by (cases w)
  have ttl: "0 < ttl" using Cons.prems w by (auto simp: WINDOWS_def)
  obtain d1 where d1: "sd_incr D d (counter_key ip s) 1 0 ttl = (Inr (fst (bump (clock d) ttl (entry d (counter_key ip s)))), d1)"
      "entry d1 = (entry d)(counter_key ip s \<mapsto> bump (clock d) ttl (entry d (counter_key ip s)))" "clock d1 = clock d"
    by (rule incr_one [OF ttl])
  have other: "counter_key ip t \<noteq> counter_key ip s" if "(t, u) \<in> set ws" for t u
    using that Cons.prems w counter_key_inj [of t u s ttl ip ip] by force
  obtain d2 where d2: "incr_loop D ip ws d1 = (map (\<lambda>(s, ttl). fst (bump (clock d1) ttl (entry d1 (counter_key ip s)))) ws, d2)"
      "clock d2 = clock d1" "\<forall>(s, ttl) \<in> set ws. entry d2 (counter_key ip s) = Some (bump (clock d1) ttl (entry d1 (counter_key ip s)))"
      "\<forall>k. k \<notin> counter_key ip ` fst ` set ws \<longrightarrow> entry d2 k = entry d1 k"
    using Cons.IH [of d1] Cons.prems by auto
  have "map (\<lambda>(s, ttl). fst (bump (clock d1) ttl (entry d1 (counter_key ip s)))) ws
      = map (\<lambda>(s, ttl). fst (bump (clock d) ttl (entry d (counter_key ip s)))) ws"
    using other d1(2,3) by auto
  moreover have "\<forall>(t, u) \<in> set ws. entry d2 (counter_key ip t) = Some (bump (clock d) u (entry d (counter_key ip t)))"
    using d2(3) d1(2,3) other by auto
  moreover have "counter_key ip s \<notin> counter_key ip ` fst ` set ws" using other by force
  ultimately show ?case using d1 d2 w by (intro exI [of _ d2]) auto
qed simp

lemma increment_entry:
  assumes "(s, ttl) \<in> set WINDOWS"
  shows "entry (snd (increment D ip d)) (counter_key ip s) = Some (bump (clock d) ttl (entry d (counter_key ip s)))"
    and "clock (snd (increment D ip d)) = clock d"
    and "ip' \<noteq> ip \<Longrightarrow> entry (snd (increment D ip d)) (counter_key ip' s) = entry d (counter_key ip' s)"
    and "fst (increment D ip d) = get_rates D ip (snd (increment D ip d))"
proof -
  have "distinct (map fst WINDOWS)" by (simp add: WINDOWS_def)
  then obtain d' where d': "incr_loop D ip WINDOWS d = (map (\<lambda>(s, ttl). fst (bump (clock d) ttl (entry d (counter_key ip s)))) WINDOWS, d')"
      "clock d' = clock d" "\<forall>(s, ttl) \<in> set WINDOWS. entry d' (counter_key ip s) = Some (bump (clock d) ttl (entry d (counter_key ip s)))"
      "\<forall>k. k \<notin> counter_key ip ` fst ` set WINDOWS \<longrightarrow> entry d' k = entry d k"
    using incr_loop_spec [of WINDOWS ip d] by blast
  have i: "snd (increment D ip d) = d'" using d'(1) by (simp add: increment_def)
  show "entry (snd (increment D ip d)) (counter_key ip s) = Some (bump (clock d) ttl (entry d (counter_key ip s)))"
    using assms d'(3) i by auto
  show "clock (snd (increment D ip d)) = clock d" using d'(2) i by simp
  show "entry (snd (increment D ip d)) (counter_key ip' s) = entry d (counter_key ip' s)" if "ip' \<noteq> ip"
  proof -
    have "counter_key ip' s \<notin> counter_key ip ` fst ` set WINDOWS"
      using that counter_key_inj [OF assms, of _ _ ip' ip] by force
    then show ?thesis using d'(4) i by simp
  qed
  show "fst (increment D ip d) = get_rates D ip (snd (increment D ip d))"
    using d' i by (auto simp: increment_def get_rates_def get intro!: arg_cong [where f = rates_of] split: prod.splits)
qed

end

text \<open>Further requests of the same client, each some milliseconds after the one before.\<close>

definition visits :: "'d shdict \<Rightarrow> (nat \<Rightarrow> 'd \<Rightarrow> 'd) \<Rightarrow> string \<Rightarrow> nat list \<Rightarrow> 'd \<Rightarrow> 'd" where
  "visits D tick ip gaps d = fold (\<lambda>g d. snd (increment D ip (tick g d))) gaps d"

context shared_dict
begin

lemma visits_live:
  assumes "(s, ttl) \<in> set WINDOWS"
  shows "entry d (counter_key ip s) = Some (n, e) \<Longrightarrow> clock d + int (sum_list gaps) < e \<Longrightarrow>
     entry (visits D tick ip gaps d) (counter_key ip s) = Some (n + int (length gaps), e) \<and>
     clock (visits D tick ip gaps d) = clock d + int (sum_list gaps)"
proof (induction gaps arbitrary: d n)
  case (Cons g gaps)
  have t: "entry (tick g d) (counter_key ip s) = Some (n, e)" using Cons.prems by (simp add: tick_entry)
  let ?d = "snd (increment D ip (tick g d))"
  have "entry ?d (counter_key ip s) = Some (n + 1, e)" "clock ?d = clock d + int g"
    using increment_entry(1,2) [OF assms, of ip "tick g d"] t by (simp_all add: bump_def tick_clock)
  then show ?case using Cons.IH [of ?d "n + 1"] Cons.prems(2) by (simp add: visits_def)
qed (simp add: visits_def)

lemma fixed_window:
  assumes "(s, ttl) \<in> set WINDOWS" "entry d (counter_key ip s) = None"
    and "int (sum_list gaps) < 1000 * ttl" "1000 * ttl \<le> int (sum_list gaps + g)"
  shows "sd_get D (visits D tick ip gaps (snd (increment D ip d))) (counter_key ip s) = Some (1 + int (length gaps)) \<and>
     sd_get D (snd (increment D ip (tick g (visits D tick ip gaps (snd (increment D ip d)))))) (counter_key ip s) = Some 1 \<and>
     fst (increment D ip d) = get_rates D ip (snd (increment D ip d)) \<and>
     (ip' = ip \<or> sd_get D (snd (increment D ip d)) (counter_key ip' s) = sd_get D d (counter_key ip' s))"
proof -
  let ?d = "snd (increment D ip d)" and ?b = "visits D tick ip gaps (snd (increment D ip d))"
  have first: "entry ?d (counter_key ip s) = Some (1, clock d + 1000 * ttl)" "clock ?d = clock d"
    using increment_entry(1,2) [OF assms(1), of ip d] assms(2) by (simp_all add: bump_def)
  have b: "entry ?b (counter_key ip s) = Some (1 + int (length gaps), clock d + 1000 * ttl)"
      "clock ?b = clock d + int (sum_list gaps)"
    using visits_live [OF assms(1) first(1), of gaps] first(2) assms(3) by simp_all
  have "entry (tick g ?b) (counter_key ip s) = None" using b assms(4) by (simp add: tick_entry)
  then have "entry (snd (increment D ip (tick g ?b))) (counter_key ip s) = Some (1, clock (tick g ?b) + 1000 * ttl)"
    using increment_entry(1) [OF assms(1), of ip "tick g ?b"] by (simp add: bump_def)
  then show ?thesis using b increment_entry(3) [OF assms(1), of ip' ip d] increment_entry(4) [OF assms(1), of ip d]
    by (cases "ip' = ip") (auto simp: get)
qed

end

subsection \<open>A reference dictionary\<close>

record ndict =
  nd_clock :: int
  nd_table :: "string \<Rightarrow> (int \<times> int) option"

definition nd_incr :: "ndict \<Rightarrow> string \<Rightarrow> int \<Rightarrow> int \<Rightarrow> int \<Rightarrow> (string + int) \<times> ndict" where
  "nd_incr d k v init ttl =
     (case nd_table d k of
        None \<Rightarrow> (Inr (init + v), d\<lparr> nd_table := (nd_table d)(k \<mapsto> (init + v, nd_clock d + 1000 * ttl)) \<rparr>)
      | Some (n, e) \<Rightarrow> (Inr (n + v), d\<lparr> nd_table := (nd_table d)(k \<mapsto> (n + v, e)) \<rparr>))"

definition nd_tick :: "nat \<Rightarrow> ndict \<Rightarrow> ndict" where
  "nd_tick t d =
     \<lparr> nd_clock = nd_clock d + int t,
       nd_table = (\<lambda>k. case nd_table d k of
          Some (n, e) \<Rightarrow> if e \<le> nd_clock d + int t then None else Some (n, e)
        | None \<Rightarrow> None) \<rparr>"

definition reference_dict :: "ndict shdict" where
  "reference_dict = \<lparr> sd_incr = nd_incr, sd_get = (\<lambda>d k. map_option fst (nd_table d k)) \<rparr>"

definition empty_dict :: ndict where
  "empty_dict = \<lparr> nd_clock = 0, nd_table = Map.empty \<rparr>"

interpretation nd: shared_dict reference_dict nd_clock nd_table nd_tick
  by unfold_locales (auto simp: reference_dict_def nd_incr_def nd_tick_def split: option.splits)

subsection \<open>The wire format\<close>

text \<open>The feature vector the script means to send, and the vectors whose numbers survive \<^verbatim>\<open>cjson\<close>'s 14 digits.\<close>

definition vector_features :: "lua_vector \<Rightarrow> FeatureVector" where
  "vector_features v =
     \<lparr> ClientIp = lv_client_ip v, Ja3Hash = lv_ja3_hash v, UserAgentHash = lv_user_agent_hash v,
       ReqRate_1S = Fin (of_int (req_rate_1s (lv_rates v))), ReqRate_10S = Fin (of_int (req_rate_10s (lv_rates v))),
       ReqRate_60S = Fin (of_int (req_rate_60s (lv_rates v))), HttpMethod = lv_http_method v, UriHash = lv_uri_hash v,
       ContentLength = (case lv_content_length v of Fin x \<Rightarrow> of_int (trunc x) | _ \<Rightarrow> 0),
       HeaderCount = of_int (lv_header_count v), IsHttp2 = of_int (lv_is_http2 v),
       UnixTimestamp = of_int (lv_unix_timestamp v) \<rparr>"

definition vector_members :: "lua_vector \<Rightarrow> (string \<times> jvalue) list" where
  "vector_members v =
     feature_members (req_rate_1s (lv_rates v)) (req_rate_10s (lv_rates v)) (req_rate_60s (lv_rates v)) (vector_features v)"

definition exact_number :: "int \<Rightarrow> bool" where
  "exact_number n \<longleftrightarrow> \<bar>n\<bar> < 10 ^ 14"

definition plain_vector :: "lua_vector \<Rightarrow> bool" where
  "plain_vector v \<longleftrightarrow>
     list_all valid_utf8 [lv_client_ip v, lv_ja3_hash v, lv_user_agent_hash v, lv_http_method v, lv_uri_hash v] \<and>
     list_all exact_number [req_rate_1s (lv_rates v), req_rate_10s (lv_rates v), req_rate_60s (lv_rates v),
       lv_header_count v, lv_is_http2 v, lv_unix_timestamp v] \<and>
     (case lv_content_length v of Fin x \<Rightarrow> x = of_int (trunc x) \<and> exact_number (trunc x) | _ \<Rightarrow> False)"

text \<open>
  What the script relies on of \<^verbatim>\<open>cjson\<close> and \<^verbatim>\<open>tonumber\<close>: a table of UTF-8 strings and whole numbers of at most 14
  digits is written as a JSON object with these members in some order, control characters escaped;
  a JSON text of moderate depth is read as the value it denotes; a decoded number is itself.
\<close>

locale cjson =
  fixes cjson_encode :: "lua_vector \<Rightarrow> string option" and cjson_decode :: "string \<Rightarrow> jvalue option"
    and tonumber :: "jvalue option \<Rightarrow> gofloat option"
  assumes encode: "plain_vector v \<Longrightarrow> \<exists>t ms. cjson_encode v = Some t \<and> parse_text t = Inr (VObj ms) \<and>
      mset ms = mset (vector_members v) \<and> list_all (in_range 0x20 0xFF) t"
    and decode: "parse_text t = Inr r \<Longrightarrow> nesting r \<le> 1000 \<Longrightarrow> cjson_decode t = Some r"
    and tonumber_int: "fits_int64 n \<Longrightarrow> tonumber (Some (VNum (show_int n))) = Some (f64_of_int n)"
begin

text \<open>The engine decodes what the script encoded.\<close>

lemma encoded_features:
  assumes "plain_vector v"
  obtains t where "cjson_encode v = Some t" "unmarshal_features t = Inr (vector_features v)" "list_all (in_range 0x20 0xFF) t"
proof -
  obtain t ms where t: "cjson_encode v = Some t" "parse_text t = Inr (VObj ms)" "mset ms = mset (vector_members v)"
      "list_all (in_range 0x20 0xFF) t" using encode [OF assms] by blast
  let ?r = "lv_rates v"
  have "\<bar>req_rate_1s ?r\<bar> < 2 ^ 53" "\<bar>req_rate_10s ?r\<bar> < 2 ^ 53" "\<bar>req_rate_60s ?r\<bar> < 2 ^ 53"
    using assms by (auto simp: plain_vector_def exact_number_def)
  then have "fold (decode_member feature_fields) ms (None, zero_FeatureVector) = (None, vector_features v)"
    by (intro decode_feature_members [OF t(3) [unfolded vector_members_def]]) (simp_all add: vector_features_def)
  then show ?thesis using that t by (simp add: unmarshal_features_def Unmarshal_def finish_decode_def)
qed

end

text \<open>The printer and the reader of this library, as an encoder and a decoder.\<close>

definition ref_encode :: "lua_vector \<Rightarrow> string option" where
  "ref_encode v = Some (print_value (VObj (vector_members v)))"

definition ref_decode :: "string \<Rightarrow> jvalue option" where
  "ref_decode t = (case parse_text t of Inl err \<Rightarrow> None | Inr r \<Rightarrow> Some r)"

definition ref_tonumber :: "jvalue option \<Rightarrow> gofloat option" where
  "ref_tonumber v = (case v of Some (VNum s) \<Rightarrow> map_option f64_of_rat (readFloat s) | _ \<Rightarrow> None)"

lemma in_range_visible: "(of_char c :: nat) < 0x20 \<or> in_range 0x20 0xFF c"
  using of_char_le [of c] by (auto simp: in_range_def)

lemma in_range_hex: "d < 16 \<Longrightarrow> in_range 0x20 0xFF (hex_char d)"
  by (auto simp: hex_char_def in_range_def)

lemma escape_no_control: "list_all (in_range 0x20 0xFF) (json_escape c)"
proof -
  have "(of_char c :: nat) mod 16 < 16" by simp
  note e = in_range_hex [OF this]
  have d: "in_range 0x20 0xFF (hex_char ((of_char c :: nat) div 16))" if "(of_char c :: nat) < 0x20"
    using that by (intro in_range_hex) simp
  show ?thesis using d e in_range_visible [of c] by (auto simp: json_escape_def) (auto simp: in_range_def)
qed

lemma quote_no_control: "list_all (in_range 0x20 0xFF) (quote_text s)"
proof -
  have "list_all (in_range 0x20 0xFF) (escape_text s)"
    by (induction s) (simp_all add: escape_text_def escape_no_control)
  then show ?thesis by (simp add: quote_text_def in_range_def)
qed

lemma num_step_visible: "num_step n c = Some n' \<Longrightarrow> in_range 0x20 0xFF c"
  using in_range_visible [of c] by (cases n) (auto simp: digit19_def is_digit_def split: if_splits)

lemma num_run_visible: "num_run n s = Some n' \<Longrightarrow> list_all (in_range 0x20 0xFF) s"
  by (induction n s rule: num_run.induct) (auto dest: num_step_visible split: option.splits)

lemma number_no_control:
  assumes "number_text s"
  shows "list_all (in_range 0x20 0xFF) s"
proof -
  obtain c cs n n' where s: "s = c # cs" "c = CHR ''-'' \<or> num_step NNeg c = Some n" "num_run n cs = Some n'"
    using assms by (auto simp: number_text_def number_reach_def simp del: num_step.simps split: list.splits option.splits if_splits)
  then show ?thesis using num_run_visible [OF s(3)] num_step_visible [of NNeg c n] by (auto simp: in_range_def)
qed

lemma in_range_punctuation [simp]:
  "in_range 0x20 0xFF CHR '',''" "in_range 0x20 0xFF CHR '':''" "in_range 0x20 0xFF CHR ''[''" "in_range 0x20 0xFF CHR '']''"
  "in_range 0x20 0xFF CHR ''{''" "in_range 0x20 0xFF CHR ''}''"
  by (simp_all add: in_range_def)

lemma Join_all: "P sep \<Longrightarrow> list_all (list_all P) ps \<Longrightarrow> list_all P (Join sep ps)"
  by (induction sep ps rule: Join.induct) auto

lemma print_no_control: "json_value v \<Longrightarrow> list_all (in_range 0x20 0xFF) (print_value v)"
proof (induction v rule: print_value.induct)
  case (3 s)
  then show ?case by (simp add: number_no_control)
next
  case (5 vs)
  have "list_all (list_all (in_range 0x20 0xFF)) (map print_value vs)" using 5 by (auto simp: list.pred_set)
  then show ?case by (simp add: Join_all)
next
  case (6 ms)
  have "list_all (list_all (in_range 0x20 0xFF)) (map (\<lambda>(k, v). quote_text k @ '':'' @ print_value v) ms)"
    using 6 quote_no_control by (fastforce simp: list.pred_set)
  then show ?case by (simp add: Join_all)
qed (auto simp: quote_no_control in_range_def)

lemma vector_members_json:
  assumes "plain_vector v"
  shows "json_value (VObj (vector_members v))" "nesting (VObj (vector_members v)) \<le> maxNestingDepth"
  using assms by (simp_all add: vector_members_def feature_members_def vector_features_def plain_vector_def
      valid_utf8_all_ascii in_range_def maxNestingDepth_def)

interpretation ref: cjson ref_encode ref_decode ref_tonumber
proof unfold_locales
  fix v assume v: "plain_vector v"
  note m = vector_members_json [OF v]
  show "\<exists>t ms. ref_encode v = Some t \<and> parse_text t = Inr (VObj ms) \<and> mset ms = mset (vector_members v) \<and> list_all (in_range 0x20 0xFF) t"
    using parse_print [OF m] print_no_control [OF m(1)] unfolding ref_encode_def by blast
qed (simp_all add: ref_decode_def ref_tonumber_def readFloat_show_int f64_of_int_def)

subsection \<open>Properties\<close>

text \<open>
  C39. The counters count requests in fixed windows, not sliding ones. The first request of a client opens a
  window of the given length; every further request within it finds the number of requests so far;
  the first request after its end starts again at one, however many came shortly before. What
  \<^verbatim>\<open>increment\<close> returns is what \<^verbatim>\<open>get_rates\<close> reads afterwards, and other clients' counters are not touched.
\<close>

theorem counters_are_fixed_windows:
  assumes "shared_dict D clock entry tick" "(s, ttl) \<in> set WINDOWS"
    and "entry d (counter_key ip s) = None" "int (sum_list gaps) < 1000 * ttl" "1000 * ttl \<le> int (sum_list gaps + g)"
  defines "before \<equiv> visits D tick ip gaps (snd (increment D ip d))"
  defines "after \<equiv> snd (increment D ip (tick g before))"
  shows "sd_get D before (counter_key ip s) = Some (1 + int (length gaps)) \<and> sd_get D after (counter_key ip s) = Some 1 \<and>
     fst (increment D ip d) = get_rates D ip (snd (increment D ip d)) \<and>
     (ip' = ip \<or> sd_get D (snd (increment D ip d)) (counter_key ip' s) = sd_get D d (counter_key ip' s))"
  unfolding before_def after_def by (rule shared_dict.fixed_window [OF assms(1-5)])

theorem counters_are_fixed_windows_witness:
  "sd_get reference_dict (visits reference_dict nd_tick ''10.0.0.1'' [300, 300, 300] (snd (increment reference_dict ''10.0.0.1'' empty_dict)))
       (counter_key ''10.0.0.1'' ''1s'') = Some (1 + int (length [300, 300, 300 :: nat])) \<and>
     sd_get reference_dict (snd (increment reference_dict ''10.0.0.1'' (nd_tick 100
         (visits reference_dict nd_tick ''10.0.0.1'' [300, 300, 300] (snd (increment reference_dict ''10.0.0.1'' empty_dict))))))
       (counter_key ''10.0.0.1'' ''1s'') = Some 1"
  using counters_are_fixed_windows [OF nd.shared_dict_axioms, of "''1s''" 1 empty_dict "''10.0.0.1''" "[300, 300, 300]" 100 "''10.0.0.2''"]
  by (simp add: WINDOWS_def empty_dict_def)

end
