(* ===== verification/Server.thy ===== *)
theory Server
  imports Engine JsonDecode
begin

text \<open>
  \<^verbatim>\<open>cmd/server/main.go\<close>: wiring, the Unix-socket protocol and the HTTP server. A connection is
  the bytes received on it until its end (end of file, a read error or the 200 ms deadline)
  and the bytes written to it. Requests are lines of JSON, answers are lines of JSON.
\<close>

subsection \<open>Answers\<close>

text \<open>\<^verbatim>\<open>json.Marshal\<close> of a \<^verbatim>\<open>Decision\<close>; none of the three action strings needs escaping.\<close>

definition decision_text :: "Decision \<Rightarrow> string" where
  "decision_text d =
     ''{'' @ [CHR 0x22] @ ''action'' @ [CHR 0x22] @ '':'' @ [CHR 0x22] @ action_string (dec_Action d) @ [CHR 0x22] @
     '','' @ [CHR 0x22] @ ''retry_after'' @ [CHR 0x22] @ '':'' @ show_int (dec_RetryAfter d) @ ''}''"

definition writeResponse :: "Decision \<Rightarrow> string \<Rightarrow> string" where
  "writeResponse d out = (let b = decision_text d; b = b @ [CHR 0x0A] in out @ b)"

subsection \<open>Lines\<close>

text \<open>
  \<^verbatim>\<open>bufio.Scanner\<close> with \<^verbatim>\<open>ScanLines\<close>: lines end at a newline, a carriage return before it is dropped, a
  last line without newline counts unless it is empty, and a line that does not fit the 64 KiB
  buffer ends the scan.
\<close>

definition MaxScanTokenSize :: nat where "MaxScanTokenSize = 65536"

definition dropCR :: "string \<Rightarrow> string" where
  "dropCR l = (if l \<noteq> [] \<and> last l = CHR 0x0D then butlast l else l)"

function scan_lines :: "string \<Rightarrow> string list" where
  "scan_lines inp =
     (let l = takeWhile (\<lambda>c. c \<noteq> CHR 0x0A) inp; rest = dropWhile (\<lambda>c. c \<noteq> CHR 0x0A) inp
      in if MaxScanTokenSize \<le> length l then []
         else case rest of
           [] \<Rightarrow> if l = [] then [] else [dropCR l]
         | nl # rest' \<Rightarrow> dropCR l # scan_lines rest')"
  by auto
termination
proof (relation "measure length", goal_cases)
  case (2 inp l rest nl rest')
  then have "length (nl # rest') \<le> length inp"
    using length_dropWhile_le [of "\<lambda>c. c \<noteq> CHR 0x0A" inp] by metis
  then show ?case by simp
qed simp

declare scan_lines.simps [simp del]

subsection \<open>The protocol\<close>

text \<open>
  One iteration of the loop. \<open>circ\<close> gives the circumstances of each call: the fate of its Redis
  request and the time. A panic takes the process down; what was written stays written.
\<close>

definition answer_line ::
    "'r redis \<Rightarrow> (gofloat \<Rightarrow> int64) \<Rightarrow> transport \<times> int
     \<Rightarrow> ('e, 'b, 'm) Engine \<Rightarrow> string \<Rightarrow> string \<times> ('r, 'm) world \<Rightarrow> (string \<times> ('r, 'm) world) outcome" where
  "answer_line R oob circ eng line st =
     (let (out, w) = st
      in case unmarshal_features line of
           Inl err \<Rightarrow> Returns (writeResponse \<lparr> dec_Action = ActionAllow, dec_RetryAfter = 0 \<rparr> out, w)
         | Inr fv \<Rightarrow>
             (case Evaluate R oob (fst circ) (snd circ) eng Background (Some fv) w of
                (Panics, w') \<Rightarrow> Panics
              | (Returns decision, w') \<Rightarrow> Returns (writeResponse decision out, w')))"

fun conn_loop ::
    "'r redis \<Rightarrow> (gofloat \<Rightarrow> int64) \<Rightarrow> (nat \<Rightarrow> transport \<times> int)
     \<Rightarrow> ('e, 'b, 'm) Engine \<Rightarrow> nat \<Rightarrow> string list \<Rightarrow> string \<times> ('r, 'm) world
     \<Rightarrow> (string \<times> ('r, 'm) world) outcome" where
  "conn_loop R oob circ eng i [] st = Returns st"
| "conn_loop R oob circ eng i (line # ls) st =
     (case answer_line R oob (circ i) eng line st of
        Panics \<Rightarrow> Panics
      | Returns st' \<Rightarrow> conn_loop R oob circ eng (Suc i) ls st')"

definition handleConn ::
    "'r redis \<Rightarrow> (gofloat \<Rightarrow> int64) \<Rightarrow> (nat \<Rightarrow> transport \<times> int)
     \<Rightarrow> ('e, 'b, 'm) Engine \<Rightarrow> string \<Rightarrow> ('r, 'm) world \<Rightarrow> (string \<times> ('r, 'm) world) outcome" where
  "handleConn R oob circ eng inp w = conn_loop R oob circ eng 0 (scan_lines inp) ([], w)"

text \<open>The accept loop: it hands every connection to a goroutine and stops when the listener is closed.\<close>

datatype 'c accept = Accepted 'c | ListenerClosed | AcceptError string

fun accept_loop :: "'c accept list \<Rightarrow> 'c list" where
  "accept_loop [] = []"
| "accept_loop (Accepted cn # as) = cn # accept_loop as"
| "accept_loop (ListenerClosed # as) = []"
| "accept_loop (AcceptError err # as) = accept_loop as"

text \<open>
  \<^verbatim>\<open>runUnixSocket\<close>: \<open>Inl\<close> is the fatal error of \<^verbatim>\<open>net.Listen\<close>, \<open>Inr\<close> the connections handed to
  \<^verbatim>\<open>handleConn\<close>, in order.
\<close>

definition runUnixSocket :: "(string \<Rightarrow> string option) \<Rightarrow> string \<Rightarrow> 'c accept list \<Rightarrow> string + 'c list" where
  "runUnixSocket listen socketPath accepts =
     (case listen socketPath of
        Some err \<Rightarrow> Inl err
      | None \<Rightarrow> Inr (accept_loop accepts))"

subsection \<open>The HTTP server\<close>

datatype http_handler = Health | Metrics | HandleBlock | HandleUnblock

type_synonym routes = "(string \<times> string \<times> http_handler) list"

definition RegisterRoutes :: "routes \<Rightarrow> routes" where
  "RegisterRoutes r = r @ [(''POST'', ''/block'', HandleBlock), (''DELETE'', ''/block/:ip'', HandleUnblock)]"

definition http_routes :: routes where
  "http_routes = RegisterRoutes [(''GET'', ''/health'', Health), (''GET'', ''/metrics'', Metrics)]"

definition health :: response where
  "health = c_JSON StatusOK (JObj [(''status'', JStr ''ok'')])"

record http_Server =
  srv_Addr :: string
  srv_ReadTimeout :: int
  srv_WriteTimeout :: int
  srv_IdleTimeout :: int

definition http_server :: "string \<Rightarrow> http_Server" where
  "http_server port = \<lparr> srv_Addr = '':'' @ port, srv_ReadTimeout = 5 * 1000000000,
     srv_WriteTimeout = 10 * 1000000000, srv_IdleTimeout = 60 * 1000000000 \<rparr>"

text \<open>
  \<^verbatim>\<open>runHTTP\<close>: \<open>listenAndServe\<close> is the outcome of serving these routes; anything but the error of a
  closed server is fatal.
\<close>

datatype serve_result = ServerClosed | ServeFailed string

definition runHTTP :: "(http_Server \<Rightarrow> routes \<Rightarrow> serve_result) \<Rightarrow> string \<Rightarrow> string option" where
  "runHTTP listenAndServe port =
     (case listenAndServe (http_server port) http_routes of
        ServerClosed \<Rightarrow> None
      | ServeFailed err \<Rightarrow> Some err)"

subsection \<open>Wiring\<close>

text \<open>\<^verbatim>\<open>main\<close> up to the start of the servers: \<open>Inl\<close> is the fatal Redis error.\<close>

definition server_main ::
    "'m bpf \<Rightarrow> env \<Rightarrow> (ClusterOptions \<Rightarrow> string option) \<Rightarrow> (string \<Rightarrow> string + 'e ClientConn)
     \<Rightarrow> (string \<Rightarrow> string + map_handle) \<Rightarrow> redis_error + (('e, bl_error, 'm) Engine \<times> Blocklist)" where
  "server_main B env ping dial loadPinned =
     (let cfg = Load env
      in case redis_New ping (RedisAddrs cfg) (BucketSize cfg) (BucketTTL cfg) of
           Inl err \<Rightarrow> Inl err
         | Inr redisClient \<Rightarrow>
             (let kafkaProducer = kafka_New (KafkaBrokers cfg);
                  mlClient = (case ml_New dial (MLSidecarAddr cfg) of Inl err \<Rightarrow> None | Inr c \<Rightarrow> Some c);
                  bl = ebpf_New loadPinned
              in Inr (engine_New cfg redisClient mlClient kafkaProducer (blocklist_of B bl), bl)))"

text \<open>
  The end of \<^verbatim>\<open>main\<close>: after the signal it sleeps for two seconds and returns, and the deferred calls run in
  reverse order. Their results are dropped. The HTTP server is given five seconds to finish its requests.
\<close>

datatype 'e closed = ClosedBlocklist "string option" | ClosedMl "'e option" | ClosedKafka "string option" | ClosedRedis "string option"

definition server_stop ::
    "'k kafka \<Rightarrow> (redis_Client \<Rightarrow> string option) \<Rightarrow> (map_handle \<Rightarrow> string option) \<Rightarrow> ('e, 'b, 'm) Engine \<Rightarrow> Blocklist \<Rightarrow> 'k
     \<Rightarrow> 'e closed list \<times> 'k" where
  "server_stop K closeRdb closeMap eng bl k =
     (let b = ClosedBlocklist (bl_Close closeMap bl);
          ml = (case e_ml eng of None \<Rightarrow> [] | Some c \<Rightarrow> [ClosedMl (ml_Close c)]);
          (kerr, k') = kafka_Close K (e_kafka eng) k;
          r = ClosedRedis (redis_Close closeRdb (e_redis eng))
      in (b # ml @ [ClosedKafka kerr, r], k'))"

definition drain_time :: int where "drain_time = 2 * 1000000000"

definition shutdown_timeout :: int where "shutdown_timeout = 5 * 1000000000"

text \<open>A request in flight at the signal is served to its end only if it ends before both limits.\<close>

definition served_to_end :: "int \<Rightarrow> bool" where
  "served_to_end left \<longleftrightarrow> left \<le> min drain_time shutdown_timeout"

lemma served_to_end_iff: "served_to_end left \<longleftrightarrow> left \<le> 2000000000"
  by (simp add: served_to_end_def drain_time_def shutdown_timeout_def)

lemma server_stop_all:
  assumes "server_main B env ping dial loadPinned = Inr (eng, bl)" "dial (MLSidecarAddr (Load env)) = Inr cn"
  shows "fst (server_stop K closeRdb closeMap eng bl k) =
     [ClosedBlocklist (bl_Close closeMap bl), ClosedMl (conn_Close cn), ClosedKafka (fst (kafka_Close K (e_kafka eng) k)),
      ClosedRedis (closeRdb (e_redis eng))]"
  using assms
  by (auto simp: server_stop_def server_main_def redis_New_def ml_New_def engine_New_def ml_Close_def redis_Close_def Let_def
      split: option.splits prod.splits)

text \<open>
  A whole run of the process, with the signal after the given accepts. A fatal error of either server ends
  it at once, without the deferred calls; when both fail, either message may be the last one logged.
\<close>

datatype ('e, 'c) process_end = FatalExit "string list" | Exited "'c list" "'e closed list"

definition server_run ::
    "'m bpf \<Rightarrow> 'k kafka \<Rightarrow> env \<Rightarrow> (ClusterOptions \<Rightarrow> string option) \<Rightarrow> (string \<Rightarrow> string + 'e ClientConn) \<Rightarrow> (string \<Rightarrow> string + map_handle)
     \<Rightarrow> (string \<Rightarrow> string option) \<Rightarrow> (http_Server \<Rightarrow> routes \<Rightarrow> serve_result) \<Rightarrow> (redis_Client \<Rightarrow> string option) \<Rightarrow> (map_handle \<Rightarrow> string option)
     \<Rightarrow> 'c accept list \<Rightarrow> 'k \<Rightarrow> ('e, 'c) process_end \<times> 'k" where
  "server_run B K env ping dial loadPinned listen listenAndServe closeRdb closeMap accepts k =
     (case server_main B env ping dial loadPinned of
        Inl err \<Rightarrow> (FatalExit [''redis: init failed''], k)
      | Inr (eng, bl) \<Rightarrow>
          (case (runUnixSocket listen (UnixSocketPath (Load env)) accepts, runHTTP listenAndServe (HTTPPort (Load env))) of
             (Inr conns, None) \<Rightarrow> (case server_stop K closeRdb closeMap eng bl k of (cs, k') \<Rightarrow> (Exited conns cs, k'))
           | (sock, http) \<Rightarrow> (FatalExit ((case sock of Inl err \<Rightarrow> [err] | Inr conns \<Rightarrow> []) @ (case http of Some err \<Rightarrow> [err] | None \<Rightarrow> [])), k)))"

text \<open>It stops in an orderly way exactly when Redis answered, the socket could be opened and the HTTP server was shut down.\<close>

lemma server_run_exits_iff:
  "(\<exists>conns cs k'. server_run B K env ping dial loadPinned listen listenAndServe closeRdb closeMap accepts k = (Exited conns cs, k')) \<longleftrightarrow>
   (\<exists>c. redis_New ping (RedisAddrs (Load env)) (BucketSize (Load env)) (BucketTTL (Load env)) = Inr c) \<and>
   listen (UnixSocketPath (Load env)) = None \<and> listenAndServe (http_server (HTTPPort (Load env))) http_routes = ServerClosed"
  by (auto simp: server_run_def server_main_def runUnixSocket_def runHTTP_def Let_def
      split: sum.splits option.splits prod.splits serve_result.splits)

subsection \<open>Properties of the wiring\<close>

lemma server_main_Inr:
  assumes "server_main B env ping dial loadPinned = Inr (eng, bl)"
  shows "e_cfg eng = Load env"
    and "e_redis eng = \<lparr> bucketSize = BucketSize (Load env), bucketTTL = BucketTTL (Load env) \<rparr>"
    and "e_ml eng = (case ml_New dial (MLSidecarAddr (Load env)) of Inl err \<Rightarrow> None | Inr c \<Rightarrow> Some c)"
    and "e_kafka eng = kafka_New (KafkaBrokers (Load env))"
    and "e_blocklist eng = blocklist_of B bl" and "bl = ebpf_New loadPinned"
  using assms by (auto simp: server_main_def redis_New_def engine_New_def Let_def split: option.splits)

text \<open>Wired as \<^verbatim>\<open>main\<close> does it, a call panics exactly when there is no scoring client.\<close>

lemma wired_Evaluate_total:
  assumes "e_blocklist eng = blocklist_of B bl"
  shows "fst (Evaluate R oob net now eng ctx0 fv w) = Panics \<longleftrightarrow> e_ml eng = None"
proof
  assume "e_ml eng = None"
  then show "fst (Evaluate R oob net now eng ctx0 fv w) = Panics" by (simp add: Evaluate_nil_ml)
next
  assume p: "fst (Evaluate R oob net now eng ctx0 fv w) = Panics"
  show "e_ml eng = None"
  proof (rule ccontr)
    assume "e_ml eng \<noteq> None"
    then obtain score ver serr where sc: "Score (e_ml eng) ctx0 fv = Returns (score, ver, serr)"
      using Score_panics_iff [of "e_ml eng" ctx0 fv] by (metis outcome.exhaust prod_cases3)
    obtain rem err r where dec: "Decrement R oob net (e_redis eng) (GetClientIp fv) (w_redis w) = ((rem, err), r)"
      by (metis prod.exhaust)
    from Evaluate_policy [OF dec sc] assms p show False by (simp add: blocklist_of_def Add_total)
  qed
qed

subsection \<open>Properties of the protocol\<close>

lemma no_newline_show_nat: "CHR 0x0A \<notin> set (show_nat n)"
  using show_nat_digits [of "CHR 0x0A" n] by (auto simp: is_digit_def)

lemma no_newline_decision: "CHR 0x0A \<notin> set (decision_text d)"
  using no_newline_show_nat by (cases "dec_Action d") (auto simp: decision_text_def show_int_def)

lemma conn_loop_total:
  assumes "e_blocklist eng = blocklist_of B bl" "e_ml eng \<noteq> None"
  shows "\<exists>st'. conn_loop R oob circ eng i ls st = Returns st'"
proof (induction ls arbitrary: i st)
  case (Cons line ls)
  have "answer_line R oob (circ i) eng line st \<noteq> Panics"
    using wired_Evaluate_total [OF assms(1), of R] assms(2)
    by (auto simp: answer_line_def Let_def split: prod.splits sum.splits outcome.splits) (metis fst_conv)
  then show ?case using Cons.IH by (auto split: outcome.splits)
qed simp

subsection \<open>Framing\<close>

definition frame :: "string list \<Rightarrow> string" where
  "frame ls = concat (map (\<lambda>l. l @ [CHR 0x0A]) ls)"

definition plain_line :: "string \<Rightarrow> bool" where
  "plain_line l \<longleftrightarrow> CHR 0x0A \<notin> set l \<and> length l < 65536 \<and> (l = [] \<or> last l \<noteq> CHR 0x0D)"

lemma scan_lines_Nil [simp]: "scan_lines [] = []"
  by (subst scan_lines.simps) (simp add: MaxScanTokenSize_def)

lemma scan_lines_frame: "list_all plain_line ls \<Longrightarrow> scan_lines (frame ls) = ls"
proof (induction ls)
  case (Cons l ls)
  have l: "CHR 0x0A \<notin> set l" "length l < 65536" "dropCR l = l"
    using Cons.prems by (auto simp: plain_line_def dropCR_def)
  have "takeWhile (\<lambda>c. c \<noteq> CHR 0x0A) (l @ CHR 0x0A # frame ls) = l"
    "dropWhile (\<lambda>c. c \<noteq> CHR 0x0A) (l @ CHR 0x0A # frame ls) = CHR 0x0A # frame ls"
    using l(1) by (simp_all add: takeWhile_append dropWhile_append takeWhile_eq_all_conv)
  then show ?case using Cons l(2,3)
    by (subst scan_lines.simps) (simp add: frame_def MaxScanTokenSize_def)
qed (simp add: frame_def)

lemma plain_decision: "fits_int64 (dec_RetryAfter d) \<Longrightarrow> plain_line (decision_text d)"
  using no_newline_decision [of d] length_show_int64 [of "dec_RetryAfter d"]
  by (cases "dec_Action d") (simp_all add: plain_line_def decision_text_def)

abbreviation allow :: Decision where
  "allow \<equiv> \<lparr> dec_Action = ActionAllow, dec_RetryAfter = 0 \<rparr>"

lemma answer_line_output:
  assumes "answer_line R oob c eng line (out, w) = Returns (out', w')"
  shows "\<exists>d. out' = out @ decision_text d @ [CHR 0x0A] \<and> fits_int64 (dec_RetryAfter d) \<and>
     (\<forall>e. unmarshal_features line = Inl e \<longrightarrow> d = allow \<and> w' = w)"
proof (cases "unmarshal_features line")
  case (Inl e)
  then show ?thesis using assms
    by (auto simp: answer_line_def writeResponse_def fits_int64_iff intro!: exI [of _ allow])
next
  case (Inr fv)
  then obtain d where d: "fst (Evaluate R oob (fst c) (snd c) eng Background (Some fv) w) = Returns d"
      "out' = writeResponse d out"
    using assms by (auto simp: answer_line_def split: prod.splits outcome.splits)
  show ?thesis using Inr d(2) Evaluate_retry_fits [OF d(1)] by (auto simp: writeResponse_def)
qed

lemma conn_loop_output:
  "conn_loop R oob circ eng i ls (out, w) = Returns (out', w') \<Longrightarrow>
   \<exists>ds. length ds = length ls \<and> out' = out @ frame (map decision_text ds) \<and>
     list_all (\<lambda>d. fits_int64 (dec_RetryAfter d)) ds \<and>
     list_all2 (\<lambda>l d. \<forall>e. unmarshal_features l = Inl e \<longrightarrow> d = allow) ls ds"
proof (induction ls arbitrary: i out w)
  case Nil
  then show ?case by (simp add: frame_def)
next
  case (Cons line ls)
  obtain out1 w1 where a: "answer_line R oob (circ i) eng line (out, w) = Returns (out1, w1)"
    and c: "conn_loop R oob circ eng (Suc i) ls (out1, w1) = Returns (out', w')"
    using Cons.prems by (auto split: outcome.splits)
  obtain d where d: "out1 = out @ decision_text d @ [CHR 0x0A]" "fits_int64 (dec_RetryAfter d)"
      "\<forall>e. unmarshal_features line = Inl e \<longrightarrow> d = allow"
    using answer_line_output [OF a] by blast
  obtain ds where "length ds = length ls" "out' = out1 @ frame (map decision_text ds)"
      "list_all (\<lambda>d. fits_int64 (dec_RetryAfter d)) ds" "list_all2 (\<lambda>l d. \<forall>e. unmarshal_features l = Inl e \<longrightarrow> d = allow) ls ds"
    using Cons.IH [OF c] by blast
  with d show ?case by (intro exI [of _ "d # ds"]) (simp add: frame_def)
qed

subsection \<open>Properties\<close>


definition sample_dial :: "string \<Rightarrow> string + string ClientConn" where
  "sample_dial addr = Inr (sample_conn (Fin (1 / 2)))"

lemma sample_main:
  "\<exists>eng bl. server_main (lru_bpf True) Map.empty (\<lambda>a. None) sample_dial (\<lambda>p. Inr (MapHandle p)) = Inr (eng, bl)"
  by (simp add: server_main_def redis_New_def Let_def)


text \<open>
  Line framing is lossless: any list of lines without newline, shorter than 64 KiB and not ending
  in a carriage return is read back as it was sent.
\<close>

lemma lines_round_trip:
  assumes "list_all plain_line ls"
  shows "scan_lines (concat (map (\<lambda>l. l @ [CHR 0x0A]) ls)) = ls"
  using scan_lines_frame [OF assms] by (simp add: frame_def)

end
