(* ===== verification/AccessPhase.thy ===== *)
theory AccessPhase
  imports Nginx Server
begin

text \<open>
  The access phase of nginx in front of a running decision engine: the socket is answered by
  \<open>handleConn\<close>. What the engine decides is what the client gets.
\<close>

text \<open>A fresh connection to the engine: one line is sent, the first line of the output is received.\<close>

definition engine_sock ::
    "'r redis \<Rightarrow> (gofloat \<Rightarrow> int64) \<Rightarrow> (nat \<Rightarrow> transport \<times> int) \<Rightarrow> ('e, 'b, 'm) Engine \<Rightarrow> ('r, 'm) world \<Rightarrow> sock" where
  "engine_sock R oob circ eng w =
     \<lparr> sk_connect = (\<lambda>path. None), sk_send = (\<lambda>bytes. None),
       sk_receive = (\<lambda>sent. case handleConn R oob circ eng sent w of
          Panics \<Rightarrow> Inl ''closed''
        | Returns (out, w') \<Rightarrow> (case scan_lines out of [] \<Rightarrow> Inl ''closed'' | line # _ \<Rightarrow> Inr line)) \<rparr>"

text \<open>What a decision means for the client.\<close>

definition enforced :: "Decision \<Rightarrow> verdict" where
  "enforced d =
     (case dec_Action d of
        ActionAllow \<Rightarrow> PassOn
      | ActionThrottle \<Rightarrow> Exit 429 (Some (f64_of_int (dec_RetryAfter d)))
      | ActionBlock \<Rightarrow> Exit 403 None)"

subsection \<open>The answer as JSON\<close>

definition decision_value :: "Decision \<Rightarrow> jvalue" where
  "decision_value d =
     VObj [(''action'', VStr (action_string (dec_Action d))), (''retry_after'', VNum (show_int (dec_RetryAfter d)))]"

lemma decision_text_print: "decision_text d = print_value (decision_value d)"
  by (cases "dec_Action d")
    (simp_all add: decision_text_def decision_value_def quote_text_def escape_text_def json_escape_def)

lemma parse_decision_text: "parse_text (decision_text d) = Inr (decision_value d)"
  unfolding decision_text_print
  by (rule parse_print; cases "dec_Action d")
    (simp_all add: decision_value_def valid_utf8_all_ascii in_range_def maxNestingDepth_def)

lemma nesting_decision_value: "nesting (decision_value d) = 1"
  by (simp add: decision_value_def)

subsection \<open>One request\<close>

lemma handleConn_one:
  assumes "plain_line t" "unmarshal_features t = Inr fv"
    and "circ 0 = (net, now)" "Evaluate R oob net now eng Background (Some fv) w = (Returns dn, w')"
  shows "handleConn R oob circ eng (t @ [CHR 0x0A]) w = Returns (decision_text dn @ [CHR 0x0A], w')"
proof -
  have "scan_lines (t @ [CHR 0x0A]) = [t]" using scan_lines_frame [of "[t]"] assms(1) by (simp add: frame_def)
  then show ?thesis using assms(2-4) by (simp add: handleConn_def answer_line_def writeResponse_def)
qed

lemma engine_answers:
  assumes "plain_line t" "unmarshal_features t = Inr fv"
    and "circ 0 = (net, now)" "Evaluate R oob net now eng Background (Some fv) w = (Returns dn, w')"
  shows "query_engine (engine_sock R oob circ eng w) t = Inr (decision_text dn)"
proof -
  have "fits_int64 (dec_RetryAfter dn)"
    using Evaluate_retry_fits [of R oob net now eng Background "Some fv" w dn] assms(4) by simp
  then have "scan_lines (decision_text dn @ [CHR 0x0A]) = [decision_text dn]"
    using scan_lines_frame [of "[decision_text dn]"] plain_decision [of dn] by (simp add: frame_def)
  then show ?thesis using handleConn_one [where circ = circ, OF assms] by (simp add: query_engine_def engine_sock_def)
qed

lemma plain_line_encoded:
  assumes "list_all (in_range 0x20 0xFF) t" "length t < 65536"
  shows "plain_line t"
proof -
  have "\<not> in_range 0x20 0xFF CHR 0x0A" "\<not> in_range 0x20 0xFF CHR 0x0D" by (simp_all add: in_range_def)
  then show ?thesis using assms unfolding plain_line_def list_all_iff by (metis last_in_set)
qed

context cjson
begin

lemma act_on_decision: "fits_int64 (dec_RetryAfter d) \<Longrightarrow> act_on tonumber (decision_value d) = enforced d"
  by (cases "dec_Action d") (simp_all add: act_on_def decision_value_def enforced_def tonumber_int)

lemma evaluate_decision:
  assumes "plain_vector (build_vector md5 tonumber D req d)"
    and "\<And>t. cjson_encode (build_vector md5 tonumber D req d) = Some t \<Longrightarrow> length t < 65536"
    and "circ 0 = (net, now)" "Evaluate R oob net now eng Background
      (Some (vector_features (build_vector md5 tonumber D req d))) w = (Returns dn, w')"
  shows "ngx_evaluate md5 tonumber cjson_encode cjson_decode D (engine_sock R oob circ eng w) req d = enforced dn"
proof -
  obtain t where t: "cjson_encode (build_vector md5 tonumber D req d) = Some t"
      "unmarshal_features t = Inr (vector_features (build_vector md5 tonumber D req d))" "list_all (in_range 0x20 0xFF) t"
    by (rule encoded_features [OF assms(1)])
  have q: "query_engine (engine_sock R oob circ eng w) t = Inr (decision_text dn)"
    by (rule engine_answers [where circ = circ, OF plain_line_encoded [OF t(3) assms(2) [OF t(1)]] t(2) assms(3,4)])
  have "cjson_decode (decision_text dn) = Some (decision_value dn)"
    by (rule decode [OF parse_decision_text]) (simp add: nesting_decision_value)
  moreover have "fits_int64 (dec_RetryAfter dn)"
    using Evaluate_retry_fits [of R oob net now eng Background
        "Some (vector_features (build_vector md5 tonumber D req d))" w dn] assms(4) by simp
  moreover have "decision_value dn \<noteq> VBool False" by (simp add: decision_value_def)
  ultimately show ?thesis using t(1) q act_on_decision [of dn] by (simp add: ngx_evaluate_def)
qed

end

lemma access_evaluates:
  assumes "remote_addr req = Some ip"
  shows "access md5 tonumber cjson_encode cjson_decode D sk req d =
     (ngx_evaluate md5 tonumber cjson_encode cjson_decode D sk req (snd (increment D ip d)), snd (increment D ip d))"
  using assms by (simp add: access_def split_beta Let_def)

end
