(* ===== verification/Traffic.thy ===== *)
theory Traffic
  imports AccessPhase Node
begin

text \<open>
  Traffic through the whole system: requests reach nginx one after the other, the access phase asks the engine over
  its socket, and the engine's state goes from one request to the next. Time passes in between, in nginx'
  dictionary and in Redis alike.
\<close>

text \<open>What nginx runs with: the functions of OpenResty and the shared dictionary, with the passing of time.\<close>

record 'd front =
  fr_md5 :: "jvalue \<Rightarrow> string"
  fr_tonumber :: "jvalue option \<Rightarrow> gofloat option"
  fr_encode :: "lua_vector \<Rightarrow> string option"
  fr_decode :: "string \<Rightarrow> jvalue option"
  fr_dict :: "'d shdict"
  fr_tick :: "nat \<Rightarrow> 'd \<Rightarrow> 'd"

text \<open>Milliseconds of silence, or a request with the fate of its Redis call and the time of its decision.\<close>

datatype hit = Pause nat | Hit ngx_request transport int

text \<open>The vector that is sent for a request: its own count is in it.\<close>

definition hit_vector :: "'d front \<Rightarrow> ngx_request \<Rightarrow> 'd \<Rightarrow> lua_vector" where
  "hit_vector F req d = build_vector (fr_md5 F) (fr_tonumber F) (fr_dict F) req
     (case remote_addr req of None \<Rightarrow> d | Some ip \<Rightarrow> snd (increment (fr_dict F) ip d))"

text \<open>What the engine is left with: it handles the connection when there is a line to send. A panic ends the process.\<close>

definition engine_after ::
    "'r redis \<Rightarrow> (gofloat \<Rightarrow> int64) \<Rightarrow> 'd front \<Rightarrow> ('e, 'b, 'm) Engine \<Rightarrow> ngx_request \<Rightarrow> transport \<Rightarrow> int
     \<Rightarrow> 'd \<Rightarrow> ('r, 'm) world \<Rightarrow> ('r, 'm) world" where
  "engine_after R oob F eng req net tm d w =
     (case remote_addr req of
        None \<Rightarrow> w
      | Some ip \<Rightarrow>
          (case fr_encode F (hit_vector F req d) of
             None \<Rightarrow> w
           | Some payload \<Rightarrow>
               (case handleConn R oob (\<lambda>i. (net, tm)) eng (payload @ [CHR 0x0A]) w of
                  Panics \<Rightarrow> w
                | Returns (out, w') \<Rightarrow> w')))"

definition hit_answer ::
    "'r redis \<Rightarrow> (gofloat \<Rightarrow> int64) \<Rightarrow> 'd front \<Rightarrow> ('e, 'b, 'm) Engine \<Rightarrow> ngx_request \<Rightarrow> transport \<Rightarrow> int
     \<Rightarrow> 'd \<Rightarrow> ('r, 'm) world \<Rightarrow> verdict \<times> 'd" where
  "hit_answer R oob F eng req net tm d w =
     access (fr_md5 F) (fr_tonumber F) (fr_encode F) (fr_decode F) (fr_dict F) (engine_sock R oob (\<lambda>i. (net, tm)) eng w) req d"

fun traffic ::
    "'r redis \<Rightarrow> (gofloat \<Rightarrow> int64) \<Rightarrow> (nat \<Rightarrow> 'r \<Rightarrow> 'r) \<Rightarrow> 'd front \<Rightarrow> ('e, 'b, 'm) Engine \<Rightarrow> hit list
     \<Rightarrow> 'd \<Rightarrow> ('r, 'm) world \<Rightarrow> (ngx_request \<times> verdict) list" where
  "traffic R oob tick F eng [] d w = []"
| "traffic R oob tick F eng (Pause t # hs) d w =
     traffic R oob tick F eng hs (fr_tick F t d) (w\<lparr> w_redis := tick t (w_redis w) \<rparr>)"
| "traffic R oob tick F eng (Hit req net tm # hs) d w =
     (let (v, d') = hit_answer R oob F eng req net tm d w
      in (req, v) # traffic R oob tick F eng hs d' (engine_after R oob F eng req net tm d w))"

text \<open>
  Traffic that reaches the engine: every request has an address and a vector of UTF-8 texts and exact numbers that fits
  a line, and its Redis call is delivered.
\<close>

fun clean ::
    "'r redis \<Rightarrow> (gofloat \<Rightarrow> int64) \<Rightarrow> (nat \<Rightarrow> 'r \<Rightarrow> 'r) \<Rightarrow> 'd front \<Rightarrow> ('e, 'b, 'm) Engine \<Rightarrow> hit list
     \<Rightarrow> 'd \<Rightarrow> ('r, 'm) world \<Rightarrow> bool" where
  "clean R oob tick F eng [] d w \<longleftrightarrow> True"
| "clean R oob tick F eng (Pause t # hs) d w \<longleftrightarrow>
     clean R oob tick F eng hs (fr_tick F t d) (w\<lparr> w_redis := tick t (w_redis w) \<rparr>)"
| "clean R oob tick F eng (Hit req net tm # hs) d w \<longleftrightarrow>
     net = Delivered \<and> remote_addr req \<noteq> None \<and> plain_vector (hit_vector F req d) \<and>
     (case fr_encode F (hit_vector F req d) of None \<Rightarrow> True | Some t \<Rightarrow> length t < 65536) \<and>
     clean R oob tick F eng hs (snd (hit_answer R oob F eng req net tm d w)) (engine_after R oob F eng req net tm d w)"

fun silence :: "hit list \<Rightarrow> nat" where
  "silence [] = 0"
| "silence (Pause t # hs) = t + silence hs"
| "silence (Hit req net tm # hs) = silence hs"

definition let_through :: "string \<Rightarrow> ngx_request \<times> verdict \<Rightarrow> bool" where
  "let_through ip a \<longleftrightarrow> remote_addr (fst a) = Some ip \<and> snd a \<noteq> Exit 403 None"

fun of_client :: "string \<Rightarrow> hit \<Rightarrow> bool" where
  "of_client ip (Hit req net tm) \<longleftrightarrow> remote_addr req = Some ip"
| "of_client ip (Pause t) \<longleftrightarrow> False"

text \<open>An engine whose scorer never finds enough to block: only the bucket refuses.\<close>

definition calm :: "('e, 'b, 'm) Engine \<Rightarrow> bool" where
  "calm e \<longleftrightarrow> (\<forall>fv score ver serr. Score (e_ml e) Background (Some fv) = Returns (score, ver, serr) \<longrightarrow>
     \<not> f_gt score (float32 (ScoreBlockThreshold (e_cfg e))))"

text \<open>What is left of a new bucket after some requests; one that starts empty keeps its count.\<close>

definition left_after :: "int \<Rightarrow> nat \<Rightarrow> int" where
  "left_after cp n = (if cp \<le> 0 then cp - 1 else max 0 (cp - int n))"

lemma left_after_decrement:
  "fst (spec_decrement cp ttl t None) < 0 \<longleftrightarrow> \<not> 0 < cp"
  "snd (spec_decrement cp ttl t None) = Some (left_after cp (Suc 0), t + 1000 * ttl)"
  "0 < n \<Longrightarrow> fst (spec_decrement cp ttl t (Some (left_after cp n, x))) < 0 \<longleftrightarrow> \<not> int n < cp"
  "0 < n \<Longrightarrow> snd (spec_decrement cp ttl t (Some (left_after cp n, x))) = Some (left_after cp (Suc n), t + 1000 * ttl)"
  by (auto simp: left_after_def)

subsection \<open>One request\<close>

lemma hit_vector_ip: "remote_addr req = Some ip \<Longrightarrow> GetClientIp (Some (vector_features (hit_vector F req d))) = ip"
  by (simp add: vector_features_def hit_vector_def build_vector_def Let_def)

lemma hit_evaluated:
  assumes cj: "cjson (fr_encode F) (fr_decode F) (fr_tonumber F)" and ip: "remote_addr req = Some ip"
    and v: "plain_vector (hit_vector F req d)" "case fr_encode F (hit_vector F req d) of None \<Rightarrow> True | Some t \<Rightarrow> length t < 65536"
    and ev: "Evaluate R oob net tm eng Background (Some (vector_features (hit_vector F req d))) w = (Returns dn, w')"
  shows "fst (hit_answer R oob F eng req net tm d w) = enforced dn" "engine_after R oob F eng req net tm d w = w'"
proof -
  let ?v = "hit_vector F req d"
  have vec: "?v = build_vector (fr_md5 F) (fr_tonumber F) (fr_dict F) req (snd (increment (fr_dict F) ip d))"
    by (simp add: hit_vector_def ip)
  have short: "length t < 65536" if "fr_encode F ?v = Some t" for t using v(2) that by simp
  show "fst (hit_answer R oob F eng req net tm d w) = enforced dn"
    unfolding hit_answer_def access_evaluates [OF ip] fst_conv
    by (rule cjson.evaluate_decision [where circ = "\<lambda>i. (net, tm)", OF cj]) (use v(1) short ev in \<open>simp_all add: vec\<close>)
  obtain t where t: "fr_encode F ?v = Some t" "unmarshal_features t = Inr (vector_features ?v)" "list_all (in_range 0x20 0xFF) t"
    by (rule cjson.encoded_features [OF cj v(1)])
  have "handleConn R oob (\<lambda>i. (net, tm)) eng (t @ [CHR 0x0A]) w = Returns (decision_text dn @ [CHR 0x0A], w')"
    by (rule handleConn_one [where circ = "\<lambda>i. (net, tm)", OF plain_line_encoded [OF t(3) short [OF t(1)]] t(2) _ ev]) simp
  then show "engine_after R oob F eng req net tm d w = w'" by (simp add: engine_after_def ip t(1))
qed

lemma enforced_403: "enforced d = Exit 403 None \<longleftrightarrow> dec_Action d = ActionBlock"
  by (simp add: enforced_def split: Action.splits)

subsection \<open>The limit\<close>

context bucket_client
begin

text \<open>What a request does to its bucket, and when it is refused.\<close>

lemma hit_bucket:
  assumes cj: "cjson (fr_encode F) (fr_decode F) (fr_tonumber F)"
    and e: "e_redis e = c" "e_blocklist e = blocklist_of B b" "e_ml e \<noteq> None"
    and ok: "buckets_ok entry c (w_redis w)" and cl: "clean R oob tick F e (Hit req net tm # hs) d w"
  obtains ip score where "remote_addr req = Some ip"
    "\<exists>fv ver serr. Score (e_ml e) Background (Some fv) = Returns (score, ver, serr)"
    "fst (hit_answer R oob F e req net tm d w) = Exit 403 None \<longleftrightarrow>
       fst (spec_decrement (cap c) (ttl_arg oob c) (now (w_redis w)) (buckets entry (w_redis w) ip)) < 0 \<or>
       f_gt score (float32 (ScoreBlockThreshold (e_cfg e)))"
    "buckets_ok entry c (w_redis (engine_after R oob F e req net tm d w))"
    "now (w_redis (engine_after R oob F e req net tm d w)) = now (w_redis w)"
    "buckets entry (w_redis (engine_after R oob F e req net tm d w)) = (buckets entry (w_redis w))
       (ip := snd (spec_decrement (cap c) (ttl_arg oob c) (now (w_redis w)) (buckets entry (w_redis w) ip)))"
proof -
  let ?fv = "Some (vector_features (hit_vector F req d))" and ?r = "w_redis w"
  obtain ip where ip: "remote_addr req = Some ip" using cl by auto
  note fv = hit_vector_ip [OF ip, of F d]
  obtain score ver serr where sc: "Score (e_ml e) Background ?fv = Returns (score, ver, serr)"
    using e(3) Score_panics_iff [of "e_ml e" Background ?fv] by (metis outcome.exhaust prod_cases3)
  let ?sp = "spec_decrement (cap c) (ttl_arg oob c) (now ?r) (buckets entry ?r ip)"
  let ?d = "policy oob (e_cfg e) (fst ?sp < 0) score"
  obtain r where dec: "Decrement R oob Delivered (e_redis e) ip ?r = ((fst ?sp, None), r)"
    using svc.decrement_reply [OF ok, of ip] e(1) by (metis prod.collapse)
  have r: "buckets_ok entry c r" "now r = now ?r" "buckets entry r = (buckets entry ?r)(ip := snd ?sp)"
    using svc.decrement_ok [OF ok, of ip] svc.decrement_clock [OF ok, of ip] svc.decrement_bucket [OF ok, of ip] dec e(1) by simp_all
  have ev: "Evaluate R oob net tm e Background ?fv w = (Returns ?d, aftermath e tm ?fv score ?d r w)"
    using Evaluate_policy [OF dec [folded fv] sc, of tm] e(2) fv cl by simp
  have hit: "fst (hit_answer R oob F e req net tm d w) = enforced ?d" "w_redis (engine_after R oob F e req net tm d w) = r"
    using hit_evaluated [OF cj ip _ _ ev] cl by simp_all
  have "\<exists>fv ver serr. Score (e_ml e) Background (Some fv) = Returns (score, ver, serr)" using sc by blast
  moreover have "fst (hit_answer R oob F e req net tm d w) = Exit 403 None \<longleftrightarrow>
       fst ?sp < 0 \<or> f_gt score (float32 (ScoreBlockThreshold (e_cfg e)))"
    by (simp add: hit enforced_403 policy_Action)
  ultimately show ?thesis using that ip r hit(2) by blast
qed

text \<open>The books of one client's bucket when \<open>n\<close> of its requests have been let through since \<open>t0\<close>.\<close>

definition served_ok :: "string \<Rightarrow> int \<Rightarrow> nat \<Rightarrow> 'r \<Rightarrow> bool" where
  "served_ok ip t0 n r \<longleftrightarrow>
     buckets_ok entry c r \<and> balanced (cap c) (ttl_arg oob c) t0 (now r) n (buckets entry r ip)"

lemma served_ok_hit:
  assumes cj: "cjson (fr_encode F) (fr_decode F) (fr_tonumber F)"
    and e: "e_redis e = c" "e_blocklist e = blocklist_of B b" "e_ml e \<noteq> None"
    and inv: "served_ok ip t0 n (w_redis w)" and cl: "clean R oob tick F e (Hit req net tm # hs) d w"
  shows "served_ok ip t0 (n + (if let_through ip (req, fst (hit_answer R oob F e req net tm d w)) then 1 else 0))
     (w_redis (engine_after R oob F e req net tm d w))"
    and "now (w_redis (engine_after R oob F e req net tm d w)) = now (w_redis w)"
proof -
  have ok: "buckets_ok entry c (w_redis w)"
    and bal: "balanced (cap c) (ttl_arg oob c) t0 (now (w_redis w)) n (buckets entry (w_redis w) ip)"
    using inv by (simp_all add: served_ok_def)
  obtain ip' score where h: "remote_addr req = Some ip'"
      "\<exists>fv ver serr. Score (e_ml e) Background (Some fv) = Returns (score, ver, serr)"
      "fst (hit_answer R oob F e req net tm d w) = Exit 403 None \<longleftrightarrow>
         fst (spec_decrement (cap c) (ttl_arg oob c) (now (w_redis w)) (buckets entry (w_redis w) ip')) < 0 \<or>
         f_gt score (float32 (ScoreBlockThreshold (e_cfg e)))"
      "buckets_ok entry c (w_redis (engine_after R oob F e req net tm d w))"
      "now (w_redis (engine_after R oob F e req net tm d w)) = now (w_redis w)"
      "buckets entry (w_redis (engine_after R oob F e req net tm d w)) = (buckets entry (w_redis w))
         (ip' := snd (spec_decrement (cap c) (ttl_arg oob c) (now (w_redis w)) (buckets entry (w_redis w) ip')))"
    by (rule hit_bucket [OF cj e ok cl])
  show "now (w_redis (engine_after R oob F e req net tm d w)) = now (w_redis w)" by (rule h(5))
  show "served_ok ip t0 (n + (if let_through ip (req, fst (hit_answer R oob F e req net tm d w)) then 1 else 0))
     (w_redis (engine_after R oob F e req net tm d w))"
  proof (cases "ip' = ip")
    case True
    note dec = balanced_decrement [OF bal svc.bucket_bound [OF ok] svc.ttl_pos]
    have "balanced (cap c) (ttl_arg oob c) t0 (now (w_redis w))
        (n + (if let_through ip (req, fst (hit_answer R oob F e req net tm d w)) then 1 else 0))
        (snd (spec_decrement (cap c) (ttl_arg oob c) (now (w_redis w)) (buckets entry (w_redis w) ip)))"
      using h(3) True by (intro balanced_fewer [OF dec]) (auto simp: let_through_def)
    then show ?thesis using True h by (simp add: served_ok_def)
  next
    case False
    then show ?thesis using bal h by (simp add: served_ok_def let_through_def)
  qed
qed

lemma traffic_books:
  assumes cj: "cjson (fr_encode F) (fr_decode F) (fr_tonumber F)"
    and e: "e_redis e = c" "e_blocklist e = blocklist_of B b" "e_ml e \<noteq> None"
  shows "served_ok ip t0 n (w_redis w) \<Longrightarrow> clean R oob tick F e hs d w \<Longrightarrow>
     \<exists>r. served_ok ip t0 (n + tally (let_through ip) (traffic R oob tick F e hs d w)) r \<and> now r = now (w_redis w) + int (silence hs)"
proof (induction hs arbitrary: n d w)
  case (Cons h hs)
  show ?case
  proof (cases h)
    case (Pause t)
    have ok: "buckets_ok entry c (w_redis w)" using Cons.prems by (simp add: served_ok_def)
    have "served_ok ip t0 n (tick t (w_redis w))"
      using Cons.prems(1) svc.wait_ok [OF ok, of t] svc.wait_clock [OF ok, of t] svc.wait_bucket [OF ok, of t ip]
      by (simp add: served_ok_def balanced_expire)
    with Cons.IH [of n "w\<lparr> w_redis := tick t (w_redis w) \<rparr>" "fr_tick F t d"] Cons.prems svc.wait_clock [OF ok, of t]
    show ?thesis by (auto simp: Pause algebra_simps)
  next
    case (Hit req net tm)
    let ?v = "hit_answer R oob F e req net tm d w" and ?w = "engine_after R oob F e req net tm d w"
    note step = served_ok_hit [OF cj e Cons.prems(1) Cons.prems(2) [unfolded Hit]]
    have "clean R oob tick F e hs (snd ?v) ?w" using Cons.prems(2) by (auto simp: Hit)
    from Cons.IH [OF step(1) this] step(2) show ?thesis by (auto simp: Hit split_beta Let_def)
  qed
qed (auto simp: served_ok_def)

text \<open>In a stretch shorter than the time to live, no more requests are let through than the bucket holds.\<close>

lemma traffic_within:
  assumes "cjson (fr_encode F) (fr_decode F) (fr_tonumber F)"
    and "e_redis e = c" "e_blocklist e = blocklist_of B b" "e_ml e \<noteq> None"
    and "buckets_ok entry c (w_redis w)" "clean R oob tick F e hs d w" "int (silence hs) < 1000 * ttl_arg oob c"
  shows "tally (let_through ip) (traffic R oob tick F e hs d w) \<le> nat (cap c)"
proof -
  have "served_ok ip (now (w_redis w)) 0 (w_redis w)" using assms(5) by (simp add: served_ok_def balanced_def)
  from traffic_books [OF assms(1-4) this assms(6)] assms(7) show ?thesis
    by (fastforce simp: served_ok_def balanced_def)
qed

text \<open>The exact books: a client of which no bucket was known has made \<open>n\<close> requests since \<open>t0\<close>.\<close>

definition counted :: "string \<Rightarrow> int \<Rightarrow> nat \<Rightarrow> 'r \<Rightarrow> bool" where
  "counted ip t0 n r \<longleftrightarrow> buckets_ok entry c r \<and>
     (now r < t0 + 1000 * ttl_arg oob c \<longrightarrow> t0 \<le> now r \<and>
        (if n = 0 then buckets entry r ip = None
         else \<exists>x. buckets entry r ip = Some (left_after (cap c) n, x) \<and> t0 + 1000 * ttl_arg oob c \<le> x))"

lemma counted_hit:
  assumes cj: "cjson (fr_encode F) (fr_decode F) (fr_tonumber F)"
    and e: "e_redis e = c" "e_blocklist e = blocklist_of B b" "e_ml e \<noteq> None" "calm e"
    and inv: "counted ip t0 n (w_redis w)" and cl: "clean R oob tick F e (Hit req net tm # hs) d w"
    and win: "now (w_redis w) < t0 + 1000 * ttl_arg oob c"
  shows "counted ip t0 (n + (if of_client ip (Hit req net tm) then 1 else 0)) (w_redis (engine_after R oob F e req net tm d w))"
    and "now (w_redis (engine_after R oob F e req net tm d w)) = now (w_redis w)"
    and "let_through ip (req, fst (hit_answer R oob F e req net tm d w)) \<longleftrightarrow> of_client ip (Hit req net tm) \<and> int n < cap c"
proof -
  have ok: "buckets_ok entry c (w_redis w)" using inv by (simp add: counted_def)
  obtain ip' score where h: "remote_addr req = Some ip'"
      "\<exists>fv ver serr. Score (e_ml e) Background (Some fv) = Returns (score, ver, serr)"
      "fst (hit_answer R oob F e req net tm d w) = Exit 403 None \<longleftrightarrow>
         fst (spec_decrement (cap c) (ttl_arg oob c) (now (w_redis w)) (buckets entry (w_redis w) ip')) < 0 \<or>
         f_gt score (float32 (ScoreBlockThreshold (e_cfg e)))"
      "buckets_ok entry c (w_redis (engine_after R oob F e req net tm d w))"
      "now (w_redis (engine_after R oob F e req net tm d w)) = now (w_redis w)"
      "buckets entry (w_redis (engine_after R oob F e req net tm d w)) = (buckets entry (w_redis w))
         (ip' := snd (spec_decrement (cap c) (ttl_arg oob c) (now (w_redis w)) (buckets entry (w_redis w) ip')))"
    by (rule hit_bucket [OF cj e(1-3) ok cl])
  have calm: "\<not> f_gt score (float32 (ScoreBlockThreshold (e_cfg e)))" using h(2) e(4) unfolding calm_def by blast
  show "now (w_redis (engine_after R oob F e req net tm d w)) = now (w_redis w)" by (rule h(5))
  show "counted ip t0 (n + (if of_client ip (Hit req net tm) then 1 else 0)) (w_redis (engine_after R oob F e req net tm d w))"
    using inv win h(1,4,5,6) by (cases "ip' = ip"; cases "n = 0") (auto simp: counted_def left_after_decrement simp del: spec_decrement.simps)
  show "let_through ip (req, fst (hit_answer R oob F e req net tm d w)) \<longleftrightarrow> of_client ip (Hit req net tm) \<and> int n < cap c"
    using inv win h(1,3) calm by (cases "ip' = ip"; cases "n = 0") (auto simp: counted_def let_through_def left_after_decrement simp del: spec_decrement.simps)
qed

lemma traffic_counted:
  assumes cj: "cjson (fr_encode F) (fr_decode F) (fr_tonumber F)"
    and e: "e_redis e = c" "e_blocklist e = blocklist_of B b" "e_ml e \<noteq> None" "calm e"
  shows "counted ip t0 n (w_redis w) \<Longrightarrow> clean R oob tick F e hs d w \<Longrightarrow>
     now (w_redis w) + int (silence hs) < t0 + 1000 * ttl_arg oob c \<Longrightarrow>
     min (nat (cap c)) n + tally (let_through ip) (traffic R oob tick F e hs d w) = min (nat (cap c)) (n + tally (of_client ip) hs)"
proof (induction hs arbitrary: n d w)
  case (Cons h hs)
  show ?case
  proof (cases h)
    case (Pause t)
    have ok: "buckets_ok entry c (w_redis w)" using Cons.prems by (simp add: counted_def)
    note wait = svc.wait_ok [OF ok, of t] svc.wait_clock [OF ok, of t] svc.wait_bucket [OF ok, of t ip]
    have "counted ip t0 n (tick t (w_redis w))"
      using Cons.prems(1,3) wait by (cases "n = 0") (auto simp: counted_def)
    with Cons.IH [of n "w\<lparr> w_redis := tick t (w_redis w) \<rparr>" "fr_tick F t d"] Cons.prems wait show ?thesis
      by (simp add: Pause algebra_simps)
  next
    case (Hit req net tm)
    let ?v = "hit_answer R oob F e req net tm d w" and ?w = "engine_after R oob F e req net tm d w"
    have win: "now (w_redis w) < t0 + 1000 * ttl_arg oob c" using Cons.prems(3) by (simp add: Hit)
    note step = counted_hit [OF cj e Cons.prems(1) Cons.prems(2) [unfolded Hit] win]
    have "clean R oob tick F e hs (snd ?v) ?w" using Cons.prems(2) by (auto simp: Hit)
    from Cons.IH [OF step(1) this] step(2,3) Cons.prems(3) show ?thesis
      by (auto simp: Hit split_beta Let_def min_def split: if_splits)
  qed
qed simp

text \<open>With calm scores a new client gets through exactly as often as its bucket holds.\<close>

lemma traffic_exact:
  assumes "cjson (fr_encode F) (fr_decode F) (fr_tonumber F)"
    and "e_redis e = c" "e_blocklist e = blocklist_of B b" "e_ml e \<noteq> None" "calm e"
    and "buckets_ok entry c (w_redis w)" "clean R oob tick F e hs d w" "int (silence hs) < 1000 * ttl_arg oob c"
    and "buckets entry (w_redis w) ip = None"
  shows "tally (let_through ip) (traffic R oob tick F e hs d w) = min (nat (cap c)) (tally (of_client ip) hs)"
proof -
  have "counted ip (now (w_redis w)) 0 (w_redis w)" using assms(6,9) by (simp add: counted_def)
  from traffic_counted [OF assms(1-5) this assms(7)] assms(8) show ?thesis by simp
qed

end

end
