(* ===== verification/Gateway.thy ===== *)
theory Gateway
  imports Traffic
begin

text \<open>
  What the outside world reaches. \<^verbatim>\<open>nginx/conf.d/default.conf\<close> answers two prefixes itself and hands every other request, once the
  access phase has let it through, to the engine's HTTP server, whose router is built by \<^verbatim>\<open>runHTTP\<close> and \<^verbatim>\<open>RegisterRoutes\<close>. A path is
  the decoded path without dot segments or doubled slashes.
\<close>

subsection \<open>The engine's HTTP server\<close>

text \<open>gin's patterns: a segment that begins with a colon matches one segment that is not empty, another one itself.\<close>

fun match_segments :: "string list \<Rightarrow> string list \<Rightarrow> string list option" where
  "match_segments [] [] = Some []"
| "match_segments (p # ps) (s # ss) =
     (if p \<noteq> [] \<and> hd p = CHR '':'' then if s = [] then None else map_option (Cons s) (match_segments ps ss)
      else if p = s then match_segments ps ss else None)"
| "match_segments ps ss = None"

fun find_route :: "routes \<Rightarrow> string \<Rightarrow> string \<Rightarrow> (http_handler \<times> string list) option" where
  "find_route [] meth path = None"
| "find_route ((m, pat, h) # rs) meth path =
     (case if m = meth then match_segments (Split (CHR ''/'') pat) (Split (CHR ''/'') path) else None of
        Some params \<Rightarrow> Some (h, params)
      | None \<Rightarrow> find_route rs meth path)"

text \<open>\<open>metrics\<close> is the page of the Prometheus library, \<open>no_route\<close> gin's answer when no route matches.\<close>

definition engine_http ::
    "'m http \<Rightarrow> response \<Rightarrow> response \<Rightarrow> string \<Rightarrow> string \<Rightarrow> string \<Rightarrow> 'm \<Rightarrow> response outcome \<times> 'm" where
  "engine_http H metrics no_route meth path reqBody m =
     (case find_route http_routes meth path of
        None \<Rightarrow> (Returns no_route, m)
      | Some (Health, _) \<Rightarrow> (Returns health, m)
      | Some (Metrics, _) \<Rightarrow> (Returns metrics, m)
      | Some (HandleBlock, _) \<Rightarrow> handleBlock (h_bpf H) (h_show H) (h_bind H) (h_list H) reqBody m
      | Some (HandleUnblock, params) \<Rightarrow> handleUnblock (h_bpf H) (h_show H) (h_list H) (hd params) m)"

subsection \<open>Nginx in front of it\<close>

datatype location = LocHealth | LocMetrics | LocProxy

text \<open>The longest of the prefixes \<^verbatim>\<open>/\<close>, \<^verbatim>\<open>/health\<close> and \<^verbatim>\<open>/metrics\<close>.\<close>

definition location_of :: "string \<Rightarrow> location" where
  "location_of path =
     (if take 7 path = ''/health'' then LocHealth
      else if take 8 path = ''/metrics'' then LocMetrics
      else LocProxy)"

record web_request =
  wr_method :: string
  wr_path :: string
  wr_body :: string
  wr_ngx :: ngx_request

text \<open>The status the client gets. A Lua error is a 500, a connection the upstream breaks off a 502.\<close>

definition gateway ::
    "'r redis \<Rightarrow> (gofloat \<Rightarrow> int64) \<Rightarrow> 'd front \<Rightarrow> ('e, 'b, 'm) Engine \<Rightarrow> 'm http \<Rightarrow> response \<Rightarrow> response \<Rightarrow> transport \<Rightarrow> int
     \<Rightarrow> web_request \<Rightarrow> 'd \<Rightarrow> ('r, 'm) world \<Rightarrow> nat \<times> 'd \<times> ('r, 'm) world" where
  "gateway R oob F eng H metrics no_route net tm wr d w =
     (case location_of (wr_path wr) of
        LocHealth \<Rightarrow> (StatusOK, d, w)
      | LocMetrics \<Rightarrow> (StatusOK, d, w)
      | LocProxy \<Rightarrow>
          (let (v, d') = hit_answer R oob F eng (wr_ngx wr) net tm d w;
               w' = engine_after R oob F eng (wr_ngx wr) net tm d w
           in case v of
                Exit code _ \<Rightarrow> (code, d', w')
              | LuaRaised \<Rightarrow> (StatusInternalServerError, d', w')
              | PassOn \<Rightarrow>
                  (case engine_http H metrics no_route (wr_method wr) (wr_path wr) (wr_body wr) (w_map w') of
                     (Panics, m) \<Rightarrow> (502, d', w'\<lparr> w_map := m \<rparr>)
                   | (Returns r, m) \<Rightarrow> (status r, d', w'\<lparr> w_map := m \<rparr>))))"

subsection \<open>Routing\<close>

lemma route_unblock:
  assumes "CHR ''/'' \<notin> set ip" "ip \<noteq> []"
  shows "find_route http_routes ''DELETE'' (''/block/'' @ ip) = Some (HandleUnblock, [ip])"
  using assms by (simp add: http_routes_def RegisterRoutes_def Split_single)

lemma route_block: "find_route http_routes ''POST'' ''/block'' = Some (HandleBlock, [])"
  by (simp add: http_routes_def RegisterRoutes_def)

lemma location_block: "location_of (''/block'' @ rest) = LocProxy"
  by (simp add: location_of_def)

lemma match_segments_cases:
  "match_segments [] ss = (if ss = [] then Some [] else None)"
  "match_segments (p # ps) ss =
     (case ss of [] \<Rightarrow> None
      | s # ss' \<Rightarrow>
          if p \<noteq> [] \<and> hd p = CHR '':'' then if s = [] then None else map_option (Cons s) (match_segments ps ss')
          else if p = s then match_segments ps ss' else None)"
  by (cases ss; simp)+

lemma match_block:
  "match_segments [[], ''block''] ss = (if ss = [[], ''block''] then Some [] else None)"
  "match_segments [[], ''block'', '':ip''] ss = (case ss of [a, b, ip] \<Rightarrow> if a = [] \<and> b = ''block'' \<and> ip \<noteq> [] then Some [ip] else None | _ \<Rightarrow> None)"
  by (auto simp: match_segments_cases split: list.splits)

text \<open>The management interface is served under exactly these two routes.\<close>

lemma engine_http_changes_map:
  assumes "engine_http H metrics no_route meth path reqBody m = (r, m')" "m' \<noteq> m"
  shows "meth = ''POST'' \<and> path = ''/block'' \<or> meth = ''DELETE'' \<and> (\<exists>ip. Split (CHR ''/'') path = [[], ''block'', ip] \<and> ip \<noteq> [])"
proof -
  have seg: "Split (CHR ''/'') ''/block'' = [[], ''block'']" "Split (CHR ''/'') ''/block/:ip'' = [[], ''block'', '':ip'']" by simp_all
  have route: "find_route http_routes meth path = Some (HandleBlock, ps) \<or> find_route http_routes meth path = Some (HandleUnblock, ps) \<Longrightarrow>
      meth = ''POST'' \<and> Split (CHR ''/'') path = [[], ''block''] \<or>
      meth = ''DELETE'' \<and> (\<exists>ip. Split (CHR ''/'') path = [[], ''block'', ip] \<and> ip \<noteq> [])" for ps
    unfolding http_routes_def RegisterRoutes_def append.simps find_route.simps seg match_block
    by (auto split: option.splits if_splits list.splits)
  have "\<exists>ps. find_route http_routes meth path = Some (HandleBlock, ps) \<or> find_route http_routes meth path = Some (HandleUnblock, ps)"
    using assms by (auto simp: engine_http_def split: option.splits prod.splits http_handler.splits)
  moreover have "path = ''/block''" if "Split (CHR ''/'') path = [[], ''block'']"
    using arg_cong [OF that, of "Join (CHR ''/'')"] by simp
  ultimately show ?thesis using route by blast
qed

end
