(* ===== verification/Timing.thy ===== *)
theory Timing
  imports AccessPhase "HOL-Library.Sublist"
begin

text \<open>
  The connection against the clock. \<^verbatim>\<open>handleConn\<close> sets one deadline, 200 ms after the connection was accepted, for all its reads
  and writes; nginx waits 50 ms for an answer and keeps a connection for later requests. Times are milliseconds
  since the connection was accepted. A line takes some time to be answered; reads and writes after the deadline fail,
  and \<^verbatim>\<open>writeResponse\<close> drops the error of a write.
\<close>

definition conn_deadline :: nat where "conn_deadline = 200"

text \<open>
  How the scanner comes by a line: it has read it together with an earlier one, it reads the end of it at a given time, or the deadline
  expires in the middle of it, and the scanner hands out what it has as the last line.
\<close>

datatype arrival = Buffered | Reads nat | Cut

record exchange =
  x_line :: string
  x_arrival :: arrival
  x_takes :: nat

fun scan_at :: "nat \<Rightarrow> arrival \<Rightarrow> nat option" where
  "scan_at t Buffered = Some t"
| "scan_at t (Reads a) = (if max t a < conn_deadline then Some (max t a) else None)"
| "scan_at t Cut = Some (max t conn_deadline)"

text \<open>The loop of \<^verbatim>\<open>handleConn\<close>: the answers written, each with its time, and the state left behind.\<close>

fun timed_loop ::
    "'r redis \<Rightarrow> (gofloat \<Rightarrow> int64) \<Rightarrow> (nat \<Rightarrow> transport \<times> int)
     \<Rightarrow> ('e, 'b, 'm) Engine \<Rightarrow> nat \<Rightarrow> nat \<Rightarrow> exchange list \<Rightarrow> (nat \<times> string) list \<times> ('r, 'm) world
     \<Rightarrow> ((nat \<times> string) list \<times> ('r, 'm) world) outcome" where
  "timed_loop R oob circ eng i t [] st = Returns st"
| "timed_loop R oob circ eng i t (x # xs) (out, w) =
     (case scan_at t (x_arrival x) of
        None \<Rightarrow> Returns (out, w)
      | Some t1 \<Rightarrow>
          (let t2 = t1 + x_takes x
           in case answer_line R oob (circ i) eng (x_line x) ([], w) of
                Panics \<Rightarrow> Panics
              | Returns (ans, w') \<Rightarrow>
                  timed_loop R oob circ eng (Suc i) t2 (if x_arrival x = Cut then [] else xs)
                    (if t2 < conn_deadline then out @ [(t2, ans)] else out, w')))"

definition timed_conn ::
    "'r redis \<Rightarrow> (gofloat \<Rightarrow> int64) \<Rightarrow> (nat \<Rightarrow> transport \<times> int)
     \<Rightarrow> ('e, 'b, 'm) Engine \<Rightarrow> exchange list \<Rightarrow> ('r, 'm) world \<Rightarrow> ((nat \<times> string) list \<times> ('r, 'm) world) outcome" where
  "timed_conn R oob circ eng xs w = timed_loop R oob circ eng 0 0 xs ([], w)"

subsection \<open>The timed handler and the handler\<close>

lemma answer_line_from:
  "answer_line R oob cm eng line (out, w) =
     (case answer_line R oob cm eng line ([], w) of Panics \<Rightarrow> Panics | Returns (ans, w') \<Rightarrow> Returns (out @ ans, w'))"
  by (auto simp: answer_line_def writeResponse_def Let_def split: sum.splits prod.splits outcome.splits)

lemma conn_loop_from:
  "conn_loop R oob circ eng i ls (out, w) =
     (case conn_loop R oob circ eng i ls ([], w) of Panics \<Rightarrow> Panics | Returns (o', w') \<Rightarrow> Returns (out @ o', w'))"
proof (induction ls arbitrary: i out w)
  case (Cons l ls)
  show ?case
  proof (cases "answer_line R oob (circ i) eng l ([], w)")
    case (Returns p)
    then obtain ans w' where p: "answer_line R oob (circ i) eng l ([], w) = Returns (ans, w')" by (cases p) simp
    show ?thesis
      using Cons.IH [of "Suc i" "out @ ans" w'] Cons.IH [of "Suc i" ans w'] p
      by (simp add: answer_line_from [of R oob "circ i" eng l out]) (auto split: outcome.splits)
  qed (simp add: answer_line_from [of R oob "circ i" eng l out])
qed simp

text \<open>After the deadline nothing is written any more.\<close>

lemma timed_loop_late:
  assumes "timed_loop R oob circ eng i t xs (out, w) = Returns (out', w')" "conn_deadline \<le> t"
  shows "out' = out"
  using assms
proof (induction xs arbitrary: i t out w rule: length_induct)
  case (1 xs)
  show ?case
  proof (cases xs)
    case (Cons x ys)
    show ?thesis
    proof (cases "scan_at t (x_arrival x)")
      case (Some t1)
      then have t1: "conn_deadline \<le> t1" using 1(3) by (cases "x_arrival x") (auto split: if_splits)
      obtain ans w1 where l: "timed_loop R oob circ eng (Suc i) (t1 + x_takes x) (if x_arrival x = Cut then [] else ys) (out, w1) = Returns (out', w')"
        using 1(2) t1 Some by (auto simp: Cons Let_def split: outcome.splits)
      have "length (if x_arrival x = Cut then [] else ys) < length xs" by (simp add: Cons)
      from 1(1) [rule_format, OF this l] t1 show ?thesis by simp
    qed (use 1(2) Cons in simp)
  qed (use 1(2) in simp)
qed

text \<open>
  What a client receives is a first part of the answers \<open>conn_loop\<close> gives, and the state is the one after a first part of the lines, at
  least those that were answered.
\<close>

lemma timed_loop_prefix:
  assumes "timed_loop R oob circ eng i t xs (out, w) = Returns (out', w')"
  shows "\<exists>k full. conn_loop R oob circ eng i (take k (map x_line xs)) ([], w) = Returns (full, w') \<and>
     (\<exists>part. concat (map snd out') = concat (map snd out) @ part \<and> prefix part full)"
  using assms
proof (induction xs arbitrary: i t out w rule: length_induct)
  case (1 xs)
  show ?case
  proof (cases xs)
    case Nil
    then show ?thesis using 1(2) by (intro exI [of _ 0]) simp
  next
    case (Cons x ys)
    show ?thesis
    proof (cases "scan_at t (x_arrival x)")
      case None
      then show ?thesis using 1(2) by (intro exI [of _ 0]) (simp add: Cons)
    next
      case (Some t1)
      let ?t2 = "t1 + x_takes x" and ?ys = "if x_arrival x = Cut then [] else ys"
      obtain ans w1 where a: "answer_line R oob (circ i) eng (x_line x) ([], w) = Returns (ans, w1)"
        and l: "timed_loop R oob circ eng (Suc i) ?t2 ?ys (if ?t2 < conn_deadline then out @ [(?t2, ans)] else out, w1) = Returns (out', w')"
        using 1(2) Some by (auto simp: Cons Let_def split: outcome.splits)
      have "length ?ys < length xs" by (simp add: Cons)
      then obtain k full part where k: "conn_loop R oob circ eng (Suc i) (take k (map x_line ?ys)) ([], w1) = Returns (full, w')"
          "concat (map snd out') = concat (map snd (if ?t2 < conn_deadline then out @ [(?t2, ans)] else out)) @ part" "prefix part full"
        using 1(1) l by blast
      obtain k' where k': "take k (map x_line ?ys) = take k' (map x_line ys)" by (cases "x_arrival x = Cut") (auto intro: that [of 0] that [of k])
      have full: "conn_loop R oob circ eng i (take (Suc k') (map x_line xs)) ([], w) = Returns (ans @ full, w')"
        using a k(1) k' conn_loop_from [of R oob circ eng "Suc i" "take k' (map x_line ys)" ans w1] by (simp add: Cons)
      show ?thesis
      proof (cases "?t2 < conn_deadline")
        case True
        with k full show ?thesis by (intro exI [of _ "Suc k'"] exI [of _ "ans @ full"] conjI exI [of _ "ans @ part"]) simp_all
      next
        case False
        with timed_loop_late [OF l] full show ?thesis
          by (intro exI [of _ "Suc k'"] exI [of _ "ans @ full"] conjI exI [of _ "[]"]) simp_all
      qed
    qed
  qed
qed

text \<open>When every line is read and answered in time, the client receives all of it.\<close>

fun in_time :: "nat \<Rightarrow> exchange list \<Rightarrow> bool" where
  "in_time t [] \<longleftrightarrow> True"
| "in_time t (x # xs) \<longleftrightarrow>
     (case scan_at t (x_arrival x) of None \<Rightarrow> False | Some t1 \<Rightarrow> t1 + x_takes x < conn_deadline \<and> in_time (t1 + x_takes x) xs)"

lemma timed_loop_in_time:
  "in_time t xs \<Longrightarrow> conn_loop R oob circ eng i (map x_line xs) ([], w) = Returns (full, w') \<Longrightarrow>
   \<exists>out'. timed_loop R oob circ eng i t xs (out, w) = Returns (out', w') \<and> concat (map snd out') = concat (map snd out) @ full"
proof (induction xs arbitrary: i t out w full)
  case (Cons x xs)
  obtain t1 where t1: "scan_at t (x_arrival x) = Some t1" "t1 + x_takes x < conn_deadline" "in_time (t1 + x_takes x) xs"
    using Cons.prems(1) by (auto split: option.splits)
  have "x_arrival x \<noteq> Cut" using t1 by auto
  obtain ans w1 where a: "answer_line R oob (circ i) eng (x_line x) ([], w) = Returns (ans, w1)"
    and "conn_loop R oob circ eng (Suc i) (map x_line xs) (ans, w1) = Returns (full, w')"
    using Cons.prems(2) by (auto split: outcome.splits)
  then obtain full' where f: "conn_loop R oob circ eng (Suc i) (map x_line xs) ([], w1) = Returns (full', w')" "full = ans @ full'"
    using conn_loop_from [of R oob circ eng "Suc i" "map x_line xs" ans w1] by (auto split: outcome.splits)
  from Cons.IH [OF t1(3) f(1), of "out @ [(t1 + x_takes x, ans)]"] t1 a f(2) \<open>x_arrival x \<noteq> Cut\<close> show ?case
    by (auto simp: Let_def)
qed simp

subsection \<open>Nginx waits\<close>

definition READ_TIMEOUT :: nat where "READ_TIMEOUT = 50"

text \<open>
  A connection, fresh or from the pool, that was accepted \<open>age\<close> milliseconds ago: the engine takes \<open>takes\<close> milliseconds to answer the
  line, and nginx waits for the answer no longer than its limit.
\<close>

definition timed_sock ::
    "'r redis \<Rightarrow> (gofloat \<Rightarrow> int64) \<Rightarrow> (nat \<Rightarrow> transport \<times> int) \<Rightarrow> ('e, 'b, 'm) Engine \<Rightarrow> nat \<Rightarrow> nat \<Rightarrow> ('r, 'm) world \<Rightarrow> sock" where
  "timed_sock R oob circ eng age takes w =
     \<lparr> sk_connect = (\<lambda>path. None), sk_send = (\<lambda>bytes. None),
       sk_receive = (\<lambda>sent.
         case timed_conn R oob circ eng (map (\<lambda>l. \<lparr> x_line = l, x_arrival = Reads age, x_takes = takes \<rparr>) (scan_lines sent)) w of
           Panics \<Rightarrow> Inl ''closed''
         | Returns (out, w') \<Rightarrow>
             (case out of
                [] \<Rightarrow> Inl ''closed''
              | (t, ans) # _ \<Rightarrow>
                  if age + READ_TIMEOUT \<le> t then Inl ''timeout''
                  else (case scan_lines ans of [] \<Rightarrow> Inl ''closed'' | line # _ \<Rightarrow> Inr line))) \<rparr>"

lemma timed_conn_one:
  assumes "unmarshal_features t = Inr fv" "circ 0 = (net, now)" "Evaluate R oob net now eng Background (Some fv) w = (Returns dn, w')"
  shows "timed_conn R oob circ eng [\<lparr> x_line = t, x_arrival = Reads age, x_takes = takes \<rparr>] w =
     Returns (if age + takes < conn_deadline then [(age + takes, decision_text dn @ [CHR 0x0A])] else [],
              if age < conn_deadline then w' else w)"
  using assms by (simp add: timed_conn_def answer_line_def writeResponse_def Let_def)

lemma timed_sock_answers:
  assumes "plain_line t" "unmarshal_features t = Inr fv"
    and "circ 0 = (net, now)" "Evaluate R oob net now eng Background (Some fv) w = (Returns dn, w')"
  shows "query_engine (timed_sock R oob circ eng age takes w) t =
     (if age + takes < conn_deadline then if takes < READ_TIMEOUT then Inr (decision_text dn) else Inl ''read: timeout''
      else Inl ''read: closed'')"
proof -
  have "scan_lines (t @ [CHR 0x0A]) = [t]" using scan_lines_frame [of "[t]"] assms(1) by (simp add: frame_def)
  moreover have "scan_lines (decision_text dn @ [CHR 0x0A]) = [decision_text dn]"
    using scan_lines_frame [of "[decision_text dn]"] plain_decision [of dn] Evaluate_retry_fits [of R oob net now eng Background "Some fv" w dn]
      assms(4) by (simp add: frame_def)
  ultimately show ?thesis
    by (simp add: query_engine_def timed_sock_def timed_conn_one [where circ = circ, OF assms(2-4)])
qed

context cjson
begin

lemma evaluate_timed:
  assumes "plain_vector (build_vector md5 tonumber D req d)"
    and "\<And>t. cjson_encode (build_vector md5 tonumber D req d) = Some t \<Longrightarrow> length t < 65536"
    and "circ 0 = (net, now)" "Evaluate R oob net now eng Background
      (Some (vector_features (build_vector md5 tonumber D req d))) w = (Returns dn, w')"
  shows "ngx_evaluate md5 tonumber cjson_encode cjson_decode D (timed_sock R oob circ eng age takes w) req d =
     (if takes < READ_TIMEOUT \<and> age + takes < conn_deadline then enforced dn else PassOn)"
proof -
  obtain t where t: "cjson_encode (build_vector md5 tonumber D req d) = Some t"
      "unmarshal_features t = Inr (vector_features (build_vector md5 tonumber D req d))" "list_all (in_range 0x20 0xFF) t"
    by (rule encoded_features [OF assms(1)])
  note q = timed_sock_answers [where circ = circ, OF plain_line_encoded [OF t(3) assms(2) [OF t(1)]] t(2) assms(3,4), of age takes]
  have "ngx_evaluate md5 tonumber cjson_encode cjson_decode D (engine_sock R oob circ eng w) req d = enforced dn"
    by (rule evaluate_decision [where circ = circ, OF assms])
  moreover have "query_engine (engine_sock R oob circ eng w) t = Inr (decision_text dn)"
    by (rule engine_answers [where circ = circ, OF plain_line_encoded [OF t(3) assms(2) [OF t(1)]] t(2) assms(3,4)])
  ultimately show ?thesis using t(1) q by (simp add: ngx_evaluate_def)
qed

end

end
