(* ===== verification/TcBlocker.thy ===== *)
theory TcBlocker
  imports BpfMap
begin

text \<open>
  \<^verbatim>\<open>ebpf/tc_blocker.c\<close>: the packet filter. A packet is its bytes; a load outside them is a
  fault (\<open>Panics\<close>), which the program's bounds checks must exclude. A 32-bit load and the map
  lookup by its address see the bytes as they lie in the packet, whatever the byte order of the
  machine; the value found is a native 64-bit number. \<^verbatim>\<open>ebpf/src/rate_limiter.bpf.c\<close> is a placeholder beside it.
\<close>

datatype verdict = TC_ACT_OK | TC_ACT_SHOT

definition load :: "byte list \<Rightarrow> nat \<Rightarrow> nat \<Rightarrow> byte list outcome" where
  "load data off n = (if off + n \<le> length data then Returns (take n (drop off data)) else Panics)"

definition sizeof_ethhdr :: nat where "sizeof_ethhdr = 14"
definition sizeof_iphdr :: nat where "sizeof_iphdr = 20"
definition ETH_P_IP :: "byte list" where "ETH_P_IP = [0x08, 0x00]"

text \<open>The number a map value denotes, read in native byte order.\<close>

definition be_val :: "byte list \<Rightarrow> uint64" where
  "be_val b = foldl (\<lambda>acc x. push_bit 8 acc OR ucast x) 0 b"

definition u64_of :: "bool \<Rightarrow> byte list \<Rightarrow> uint64" where
  "u64_of little b = be_val (native little b)"

text \<open>
  \<open>bpf_ntohs(eth->h_proto) != ETH_P_IP\<close> compares the two bytes with \<open>0x0800\<close>, most significant
  first. \<open>ktime\<close> is the reading of \<^verbatim>\<open>bpf_ktime_get_coarse_ns()\<close>.
\<close>

definition tc_ingress_blocker ::
    "bool \<Rightarrow> (byte list \<Rightarrow> byte list option) \<Rightarrow> uint64 \<Rightarrow> byte list \<Rightarrow> verdict outcome" where
  "tc_ingress_blocker little blocked_ips ktime data =
     (if length data < sizeof_ethhdr then Returns TC_ACT_OK
      else case load data 12 2 of
        Panics \<Rightarrow> Panics
      | Returns h_proto \<Rightarrow>
          if h_proto \<noteq> ETH_P_IP then Returns TC_ACT_OK
          else if length data < sizeof_ethhdr + sizeof_iphdr then Returns TC_ACT_OK
          else case load data (sizeof_ethhdr + 12) 4 of
            Panics \<Rightarrow> Panics
          | Returns src_ip \<Rightarrow>
              (case blocked_ips src_ip of
                 None \<Rightarrow> Returns TC_ACT_OK
               | Some v \<Rightarrow>
                   (let expiry = u64_of little v
                    in if expiry \<noteq> 0 \<and> expiry \<le> ktime div 1000000000 then Returns TC_ACT_OK
                       else Returns TC_ACT_SHOT)))"

subsection \<open>The XDP program\<close>

record rate_counter =
  packet_count :: uint64
  last_reset_ns :: uint64

datatype xdp_action = XDP_ABORTED | XDP_DROP | XDP_PASS | XDP_TX | XDP_REDIRECT

text \<open>It has two maps, one of counters per address and one with the limit, and uses neither.\<close>

definition xdp_rate_limiter ::
    "(uint32 \<rightharpoonup> rate_counter) \<Rightarrow> uint64 option \<Rightarrow> byte list \<Rightarrow> xdp_action \<times> (uint32 \<rightharpoonup> rate_counter)" where
  "xdp_rate_limiter rate_counters config data = (XDP_PASS, rate_counters)"

subsection \<open>Map values\<close>

lemma be_val_8 [simp]:
  "be_val [b0, b1, b2, b3, b4, b5, b6, b7] =
     push_bit 56 (ucast b0) OR push_bit 48 (ucast b1) OR push_bit 40 (ucast b2) OR push_bit 32 (ucast b3) OR
     push_bit 24 (ucast b4) OR push_bit 16 (ucast b5) OR push_bit 8 (ucast b6) OR ucast b7"
  by (simp add: be_val_def push_bit_or or.assoc)

lemma be_val_be64 [simp, codec_simps]: "be_val (be64 v) = v"
proof (rule bit_word_eqI)
  fix n assume n: "n < LENGTH(64)"
  consider "n < 8" | "8 \<le> n \<and> n < 16" | "16 \<le> n \<and> n < 24" | "24 \<le> n \<and> n < 32" | "32 \<le> n \<and> n < 40"
    | "40 \<le> n \<and> n < 48" | "48 \<le> n \<and> n < 56" | "56 \<le> n \<and> n < 64"
    using n by fastforce
  then show "bit (be_val (be64 v)) n = bit v n"
    by cases (auto simp: be64_def PutUint32_def bit_simps)
qed

lemma u64_of_marshal [simp, codec_simps]: "u64_of little (marshal little (U64 v)) = v"
  by (simp add: u64_of_def)

subsection \<open>What the filter does\<close>

definition from_ipv4 :: "byte list \<Rightarrow> byte list \<Rightarrow> bool" where
  "from_ipv4 src data \<longleftrightarrow>
     34 \<le> length data \<and> take 2 (drop 12 data) = ETH_P_IP \<and> take 4 (drop 26 data) = src"

lemma tc_never_faults: "tc_ingress_blocker little blocked_ips ktime data \<noteq> Panics"
  by (auto simp: tc_ingress_blocker_def load_def sizeof_ethhdr_def sizeof_iphdr_def Let_def split: option.splits)

lemma tc_from_ipv4:
  assumes "from_ipv4 src data"
  shows "tc_ingress_blocker little blocked_ips ktime data =
     Returns (case blocked_ips src of
        None \<Rightarrow> TC_ACT_OK
      | Some v \<Rightarrow> if u64_of little v = 0 \<or> ktime div 1000000000 < u64_of little v then TC_ACT_SHOT else TC_ACT_OK)"
  using assms
  by (auto simp: tc_ingress_blocker_def from_ipv4_def load_def sizeof_ethhdr_def sizeof_iphdr_def Let_def
      not_le split: option.splits)

lemma tc_shot_iff:
  "tc_ingress_blocker little blocked_ips ktime data = Returns TC_ACT_SHOT \<longleftrightarrow>
     (\<exists>src v. from_ipv4 src data \<and> blocked_ips src = Some v \<and>
        (u64_of little v = 0 \<or> ktime div 1000000000 < u64_of little v))"
proof (cases "from_ipv4 (take 4 (drop 26 data)) data")
  case True
  have src: "from_ipv4 src data \<longleftrightarrow> src = take 4 (drop 26 data)" for src
    using True by (auto simp: from_ipv4_def)
  show ?thesis unfolding tc_from_ipv4 [OF True] src
    by (cases "blocked_ips (take 4 (drop 26 data))") simp_all
next
  case False
  then have no: "\<not> from_ipv4 src data" for src by (auto simp: from_ipv4_def)
  moreover have "tc_ingress_blocker little blocked_ips ktime data = Returns TC_ACT_OK"
    using False
    by (auto simp: tc_ingress_blocker_def from_ipv4_def load_def sizeof_ethhdr_def sizeof_iphdr_def)
  ultimately show ?thesis by simp
qed

subsection \<open>Properties\<close>

text \<open>The filter never reads outside a packet, whatever its length and contents.\<close>

lemma filter_never_faults: "tc_ingress_blocker little blocked_ips ktime data \<noteq> Panics"
  by (rule tc_never_faults)

text \<open>
  C33. The filter drops exactly the IPv4 frames, with a complete fixed header, whose source address is in
  the map with an expiry of zero or later than the uptime in whole seconds; it passes all others.
\<close>

theorem filter_drops_iff:
  "tc_ingress_blocker little blocked_ips ktime data =
     Returns (if 34 \<le> length data \<and> take 2 (drop 12 data) = [0x08, 0x00] \<and>
                (case blocked_ips (take 4 (drop 26 data)) of
                   None \<Rightarrow> False
                 | Some v \<Rightarrow> u64_of little v = 0 \<or> ktime div 1000000000 < u64_of little v)
              then TC_ACT_SHOT else TC_ACT_OK)"
proof -
  have "tc_ingress_blocker little blocked_ips ktime data = Returns TC_ACT_SHOT \<or>
      tc_ingress_blocker little blocked_ips ktime data = Returns TC_ACT_OK"
    using tc_never_faults [of little blocked_ips ktime data] by (metis outcome.exhaust verdict.exhaust)
  moreover have "tc_ingress_blocker little blocked_ips ktime data = Returns TC_ACT_SHOT \<longleftrightarrow>
      34 \<le> length data \<and> take 2 (drop 12 data) = [0x08, 0x00] \<and>
        (case blocked_ips (take 4 (drop 26 data)) of
           None \<Rightarrow> False | Some v \<Rightarrow> u64_of little v = 0 \<or> ktime div 1000000000 < u64_of little v)"
    unfolding tc_shot_iff by (auto simp: from_ipv4_def ETH_P_IP_def split: option.splits)
  ultimately show ?thesis by auto
qed

end
