(* ===== verification/GoTime.thy ===== *)
theory GoTime
  imports Prelude
begin

text \<open>
  \<^verbatim>\<open>time.Unix(sec, 0).UTC().Format(time.RFC3339)\<close>: the proleptic Gregorian calendar as Go's \<^verbatim>\<open>time\<close>
  package computes it, from seconds since a zero year far in the past, modulo \<open>2^64\<close>.
\<close>

definition unixToAbsolute :: int where
  "unixToAbsolute = 62135596800 + 9223371966579724800"

definition absolute :: "int \<Rightarrow> int" where
  "absolute sec = (sec + unixToAbsolute) mod 2 ^ 64"

definition is_leap :: "int \<Rightarrow> bool" where
  "is_leap y \<longleftrightarrow> y mod 4 = 0 \<and> (y mod 100 \<noteq> 0 \<or> y mod 400 = 0)"

text \<open>Years since the zero year (a multiple of 400 before year 1, minus one) and day of the year.\<close>

definition year_yday :: "int \<Rightarrow> int \<times> int" where
  "year_yday days =
     (let n = days div 146097; y = 400 * n; d = days - 146097 * n;
          n = d div 36524; n = n - n div 4; y = y + 100 * n; d = d - 36524 * n;
          n = d div 1461; y = y + 4 * n; d = d - 1461 * n;
          n = d div 365; n = n - n div 4; y = y + n; d = d - 365 * n
      in (y - 292277022399, d))"

definition month_lengths :: "int \<Rightarrow> int list" where
  "month_lengths y = [31, if is_leap y then 29 else 28, 31, 30, 31, 30, 31, 31, 30, 31, 30, 31]"

fun month_day :: "int list \<Rightarrow> int \<Rightarrow> int \<Rightarrow> int \<times> int" where
  "month_day [] month yday = (month, yday + 1)"
| "month_day (l # ls) month yday =
     (if yday < l \<or> ls = [] then (month, yday + 1) else month_day ls (month + 1) (yday - l))"

text \<open>\<^verbatim>\<open>appendInt\<close>: decimal, padded with zeros to a width.\<close>

definition pad :: "nat \<Rightarrow> int \<Rightarrow> string" where
  "pad width n =
     (let ds = show_nat (nat \<bar>n\<bar>); zs = replicate (width - length ds) CHR ''0''
      in (if n < 0 then ''-'' else []) @ zs @ ds)"

definition rfc3339 :: "int \<Rightarrow> string" where
  "rfc3339 sec =
     (let a = absolute sec; s = a mod 86400; (y, yday) = year_yday (a div 86400);
          (m, d) = month_day (month_lengths y) 1 yday
      in pad 4 y @ ''-'' @ pad 2 m @ ''-'' @ pad 2 d @ ''T'' @
         pad 2 (s div 3600) @ '':'' @ pad 2 (s mod 3600 div 60) @ '':'' @ pad 2 (s mod 60) @ ''Z'')"

lemma rfc3339_epoch: "rfc3339 0 = ''1970-01-01T00:00:00Z''"
  by code_simp

lemma rfc3339_leap_day: "rfc3339 1709210096 = ''2024-02-29T12:34:56Z''"
  by code_simp

end
