(* ===== verification/LoaderApi.thy ===== *)
theory LoaderApi
  imports Blocklist TcBlocker GoTime JsonDecode
begin

text \<open>
  \<^verbatim>\<open>ebpf/loader/main.go\<close>, the management API: the HTTP handlers over the pinned \<^verbatim>\<open>blocked_ips\<close>
  map and their helpers. The map handle is global and open once the server runs, so the
  handlers act on the map state directly. Request bodies are JSON texts.
\<close>

record blockRequest =
  req_IP :: string
  req_TTLSeconds :: int64

definition block_fields :: "blockRequest field list" where
  "block_fields =
     [field_of ''ip'' store_string req_IP (\<lambda>x. req_IP_update (\<lambda>_. x)),
      field_of ''ttl_seconds'' (store_int 64) req_TTLSeconds (\<lambda>x. req_TTLSeconds_update (\<lambda>_. x))]"

definition decode_block_request :: "string \<Rightarrow> json_error + blockRequest" where
  "decode_block_request reqBody = Decode block_fields \<lparr> req_IP = [], req_TTLSeconds = 0 \<rparr> reqBody"

record blockEntry =
  ent_IP :: string
  ent_ExpiresAt :: string
  ent_TTLRemaining :: int64

subsection \<open>Helpers\<close>

definition ipToUint32 :: "string \<Rightarrow> (ip_error + uint32) outcome" where
  "ipToUint32 s =
     (case ParseIP s of
        None \<Rightarrow> Returns (Inl (InvalidIP s))
      | Some ip \<Rightarrow>
          (case To4 ip of
             None \<Rightarrow> Returns (Inl (OnlyIPv4 s))
           | Some ip4 \<Rightarrow> (case Uint32 ip4 of Panics \<Rightarrow> Panics | Returns v \<Rightarrow> Returns (Inr v))))"

definition uint32ToIP :: "uint32 \<Rightarrow> string" where
  "uint32ToIP n = (let b = PutUint32 n in IP_String4 b)"

subsection \<open>Handlers\<close>

text \<open>
  \<open>show_json\<close>, \<open>show_ip\<close> and \<open>show_map\<close> are the texts of the errors. The expiry is computed in 64-bit
  arithmetic, which wraps.
\<close>

definition handleAddBlock ::
    "'m bpf \<Rightarrow> (json_error \<Rightarrow> string) \<Rightarrow> (ip_error \<Rightarrow> string) \<Rightarrow> (map_error \<Rightarrow> string) \<Rightarrow> int64 \<Rightarrow> string \<Rightarrow> 'm
     \<Rightarrow> response outcome \<times> 'm" where
  "handleAddBlock B show_json show_ip show_map now reqBody m =
     (case decode_block_request reqBody of
        Inl err \<Rightarrow> (Returns (http_Error (''invalid JSON: '' @ show_json err) StatusBadRequest), m)
      | Inr req \<Rightarrow>
          if req_IP req = [] then (Returns (http_Error ''ip field is required'' StatusBadRequest), m)
          else case ipToUint32 (req_IP req) of
            Panics \<Rightarrow> (Panics, m)
          | Returns (Inl err) \<Rightarrow> (Returns (http_Error (''invalid ip: '' @ show_ip err) StatusBadRequest), m)
          | Returns (Inr ipKey) \<Rightarrow>
              (let expiry = (if 0 < sint (req_TTLSeconds req) then now + req_TTLSeconds req else 0)
               in case Put B m (U32 ipKey) (U64 expiry) of
                    (Some err, m') \<Rightarrow>
                      (Returns (http_Error (''map put error: '' @ show_map err) StatusInternalServerError), m')
                  | (None, m') \<Rightarrow>
                      (Returns (c_JSON StatusCreated
                         (JObj [(''ip'', JStr (req_IP req)), (''status'', JStr ''blocked'')])), m')))"

definition handleRemoveBlock ::
    "'m bpf \<Rightarrow> (ip_error \<Rightarrow> string) \<Rightarrow> (map_error \<Rightarrow> string) \<Rightarrow> string \<Rightarrow> 'm \<Rightarrow> response outcome \<times> 'm" where
  "handleRemoveBlock B show_ip show_map ipStr m =
     (case ipToUint32 ipStr of
        Panics \<Rightarrow> (Panics, m)
      | Returns (Inl err) \<Rightarrow> (Returns (http_Error (''invalid ip: '' @ show_ip err) StatusBadRequest), m)
      | Returns (Inr ipKey) \<Rightarrow>
          (case Delete B m (U32 ipKey) of
             (Some err, m') \<Rightarrow>
               (Returns (http_Error (''ip not found or map error: '' @ show_map err) StatusNotFound), m')
           | (None, m') \<Rightarrow>
               (Returns (c_JSON StatusOK
                  (JObj [(''ip'', JStr ipStr), (''status'', JStr ''unblocked'')])), m')))"

text \<open>
  \<^verbatim>\<open>iter.Next(&key, &expiry)\<close> decodes one entry in native byte order; an entry of another size
  ends the iteration with an error.
\<close>

definition decode_entry :: "bool \<Rightarrow> byte list \<times> byte list \<Rightarrow> (uint32 \<times> uint64) option" where
  "decode_entry little kv =
     (case Uint32 (native little (fst kv)) of
        Returns key \<Rightarrow>
          if length (fst kv) = 4 \<and> length (snd kv) = 8 then Some (key, u64_of little (snd kv)) else None
      | Panics \<Rightarrow> None)"

definition list_entry :: "int64 \<Rightarrow> uint32 \<times> uint64 \<Rightarrow> blockEntry" where
  "list_entry now kv =
     (let (key, expiry) = kv; ip = uint32ToIP key
      in if expiry = 0 then \<lparr> ent_IP = ip, ent_ExpiresAt = ''never'', ent_TTLRemaining = - 1 \<rparr>
         else let remaining = expiry - now; remaining = (if sint remaining < 0 then 0 else remaining)
              in \<lparr> ent_IP = ip, ent_ExpiresAt = rfc3339 (sint expiry), ent_TTLRemaining = remaining \<rparr>)"

fun list_loop :: "bool \<Rightarrow> int64 \<Rightarrow> blockEntry list \<Rightarrow> (byte list \<times> byte list) list \<Rightarrow> map_error option \<times> blockEntry list" where
  "list_loop little now results [] = (None, results)"
| "list_loop little now results (kv # kvs) =
     (case decode_entry little kv of
        None \<Rightarrow> (Some SizeMismatch, results)
      | Some e \<Rightarrow> list_loop little now (results @ [list_entry now e]) kvs)"

definition entry_json :: "blockEntry \<Rightarrow> json" where
  "entry_json e = JObj
     ((''ip'', JStr (ent_IP e)) #
      (if ent_ExpiresAt e = [] then [] else [(''expires_at'', JStr (ent_ExpiresAt e))]) @
      [(''ttl_remaining_seconds'', JInt (sint (ent_TTLRemaining e)))])"

definition list_blocks :: "'m bpf \<Rightarrow> bool \<Rightarrow> int64 \<Rightarrow> 'm \<Rightarrow> map_error option \<times> blockEntry list" where
  "list_blocks B little now m =
     (let (iterErr, entries) = Iterate B m; (err, results) = list_loop little now [] entries
      in (if err \<noteq> None then err else iterErr, results))"

definition handleListBlocks ::
    "'m bpf \<Rightarrow> bool \<Rightarrow> (map_error \<Rightarrow> string) \<Rightarrow> int64 \<Rightarrow> 'm \<Rightarrow> response" where
  "handleListBlocks B little show_map now m =
     (case list_blocks B little now m of
        (Some err, _) \<Rightarrow> http_Error (''map iterate error: '' @ show_map err) StatusInternalServerError
      | (None, results) \<Rightarrow> c_JSON StatusOK (JArr (map entry_json results)))"

subsection \<open>Routes\<close>

definition routeBlock ::
    "'m bpf \<Rightarrow> bool \<Rightarrow> (json_error \<Rightarrow> string) \<Rightarrow> (ip_error \<Rightarrow> string) \<Rightarrow> (map_error \<Rightarrow> string) \<Rightarrow> int64 \<Rightarrow> string \<Rightarrow> string
     \<Rightarrow> 'm \<Rightarrow> response outcome \<times> 'm" where
  "routeBlock B little show_json show_ip show_map now method reqBody m =
     (if method = ''POST'' then handleAddBlock B show_json show_ip show_map now reqBody m
      else if method = ''GET'' then (Returns (handleListBlocks B little show_map now m), m)
      else (Returns (http_Error ''method not allowed'' StatusMethodNotAllowed), m))"

text \<open>Slicing the path from the seventh byte panics when it is shorter.\<close>

definition routeBlockIP ::
    "'m bpf \<Rightarrow> (ip_error \<Rightarrow> string) \<Rightarrow> (map_error \<Rightarrow> string) \<Rightarrow> string \<Rightarrow> string \<Rightarrow> 'm \<Rightarrow> response outcome \<times> 'm" where
  "routeBlockIP B show_ip show_map method path m =
     (if method \<noteq> ''DELETE'' then (Returns (http_Error ''method not allowed'' StatusMethodNotAllowed), m)
      else if length path < length ''/block/'' then (Panics, m)
      else handleRemoveBlock B show_ip show_map (drop (length ''/block/'') path) m)"

text \<open>The two routes \<^verbatim>\<open>main\<close> registers, on a path without dot segments or doubled slashes.\<close>

definition serve ::
    "'m bpf \<Rightarrow> bool \<Rightarrow> (json_error \<Rightarrow> string) \<Rightarrow> (ip_error \<Rightarrow> string) \<Rightarrow> (map_error \<Rightarrow> string) \<Rightarrow> int64 \<Rightarrow> string \<Rightarrow> string
     \<Rightarrow> string \<Rightarrow> 'm \<Rightarrow> response outcome \<times> 'm" where
  "serve B little show_json show_ip show_map now method path reqBody m =
     (if path = ''/block'' then routeBlock B little show_json show_ip show_map now method reqBody m
      else if take (length ''/block/'') path = ''/block/'' then routeBlockIP B show_ip show_map method path m
      else (Returns (http_Error ''404 page not found'' StatusNotFound), m))"

declare routeBlock_def [flow_simps] routeBlockIP_def [flow_simps] serve_def [flow_simps]

subsection \<open>Keys\<close>

lemma ipToUint32_key:
  "ipToUint32 s = (case ipToKey s of
      Returns (Inr k) \<Rightarrow> (case Uint32 k of Returns v \<Rightarrow> Returns (Inr v) | Panics \<Rightarrow> Panics)
    | Returns (Inl e) \<Rightarrow> Returns (Inl e)
    | Panics \<Rightarrow> Panics)"
  by (simp add: ipToUint32_def ipToKey_def split: option.splits outcome.splits)

lemma ipToUint32_Inr: "ipToUint32 s = Returns (Inr v) \<longleftrightarrow> ipToKey s = Returns (Inr (PutUint32 v))"
proof
  assume "ipToKey s = Returns (Inr (PutUint32 v))"
  then show "ipToUint32 s = Returns (Inr v)" by (simp add: ipToUint32_key)
next
  assume "ipToUint32 s = Returns (Inr v)"
  then show "ipToKey s = Returns (Inr (PutUint32 v))"
    by (auto simp: ipToUint32_def ipToKey_def split: option.splits outcome.splits)
qed

lemma ipToUint32_total: "ipToUint32 s \<noteq> Panics"
  using ipToKey_total [of s] by (auto simp: ipToUint32_def ipToKey_def split: option.splits outcome.splits)

lemma ipToUint32_uint32ToIP [simp, codec_simps]: "ipToUint32 (uint32ToIP v) = Returns (Inr v)"
  by (simp add: ipToUint32_Inr uint32ToIP_def codec_simps)

lemma uint32ToIP_inj [simp]: "uint32ToIP v = uint32ToIP w \<longleftrightarrow> v = w"
  by (metis ipToUint32_uint32ToIP outcome.inject sum.inject(2))

lemma uint32ToIP_ipToUint32:
  "ipToUint32 s = Returns (Inr v) \<Longrightarrow> CHR '':'' \<notin> set s \<Longrightarrow> uint32ToIP v = s"
  using ipToKey_dotted [of s "PutUint32 v"] by (simp add: ipToUint32_Inr uint32ToIP_def)

lemma ipToUint32_empty [simp]: "ipToUint32 [] \<noteq> Returns (Inr v)"
proof -
  have "ParseIP [] = None" by code_simp
  then show ?thesis by (simp add: ipToUint32_def)
qed

subsection \<open>Entries\<close>

lemma marshal_U32_surj:
  assumes "length b = 4"
  obtains k where "b = marshal little (U32 k)"
proof -
  obtain k where "PutUint32 k = native little b" using PutUint32_surj [of "native little b"] assms by auto
  then have "b = marshal little (U32 k)" using native_native [of little b] by simp
  then show ?thesis by (rule that)
qed

lemma be64_surj:
  assumes "length b = 8"
  obtains v where "b = be64 v"
proof -
  obtain hi where hi: "PutUint32 hi = take 4 b" using PutUint32_surj [of "take 4 b"] assms by auto
  obtain lo where lo: "PutUint32 lo = drop 4 b" using PutUint32_surj [of "drop 4 b"] assms by auto
  let ?v = "push_bit 32 (ucast hi) OR ucast lo :: uint64"
  have "(ucast (drop_bit 32 ?v) :: uint32) = hi"
    by (rule bit_word_eqI) (auto simp: bit_simps dest: bit_imp_le_length)
  moreover have "(ucast ?v :: uint32) = lo"
    by (rule bit_word_eqI) (auto simp: bit_simps)
  ultimately have "b = be64 ?v" using hi lo append_take_drop_id [of 4 b] by (simp add: be64_def)
  then show ?thesis by (rule that)
qed

lemma marshal_U64_surj:
  assumes "length b = 8"
  obtains v where "b = marshal little (U64 v)"
proof -
  obtain v where "native little b = be64 v" using be64_surj [of "native little b"] assms by auto
  then have "b = marshal little (U64 v)" using native_native [of little b] by simp
  then show ?thesis by (rule that)
qed

lemma decode_entry_marshal [simp]:
  "decode_entry little (marshal little (U32 k), marshal little (U64 v)) = Some (k, v)"
  using length_marshal(1) [of little k] length_marshal(2) [of little v] u64_of_marshal [of little v]
  by (simp add: decode_entry_def del: u64_of_marshal)

lemma list_loop_eq:
  "list_all (\<lambda>kv. decode_entry little kv \<noteq> None) kvs \<Longrightarrow>
   list_loop little now results kvs = (None, results @ map (list_entry now \<circ> the \<circ> decode_entry little) kvs)"
  by (induction kvs arbitrary: results) auto

subsection \<open>The API over the kernel map\<close>

definition loader_map :: "('m \<Rightarrow> nat) \<Rightarrow> ('m \<Rightarrow> nat) \<Rightarrow> ('m \<Rightarrow> bool) \<Rightarrow> 'm \<Rightarrow> bool" where
  "loader_map key_size value_size ok m \<longleftrightarrow> ok m \<and> key_size m = 4 \<and> value_size m = 8"

definition expiry_of :: "int64 \<Rightarrow> int64 \<Rightarrow> uint64" where
  "expiry_of now ttl = (if 0 < sint ttl then now + ttl else 0)"

text \<open>The expiry the map holds for an address, as the API writes and reads it.\<close>

definition blocked_until ::
    "bool \<Rightarrow> ('m \<Rightarrow> byte list \<Rightarrow> byte list option) \<Rightarrow> 'm \<Rightarrow> uint32 \<Rightarrow> uint64 option" where
  "blocked_until little lookup m k = map_option (u64_of little) (lookup m (marshal little (U32 k)))"

context bpf_map
begin

lemma add_block:
  assumes m: "loader_map key_size value_size ok m" and k: "ipToUint32 (req_IP req) = Returns (Inr k)"
    and req: "decode_block_request reqBody = Inr req"
  shows "\<exists>m'. handleAddBlock B show_json show_ip show_map now reqBody m =
        (Returns (c_JSON StatusCreated (JObj [(''ip'', JStr (req_IP req)), (''status'', JStr ''blocked'')])), m')
      \<and> loader_map key_size value_size ok m'
      \<and> blocked_until little lookup m' k = Some (expiry_of now (req_TTLSeconds req))"
proof -
  let ?k = "U32 k" and ?v = "U64 (expiry_of now (req_TTLSeconds req))"
  have ok: "ok m" "key_size m = 4" "value_size m = 8" using m by (simp_all add: loader_map_def)
  have p: "fst (Put B m ?k ?v) = None"
    using put_reply [OF ok(1), of ?k ?v] ok(2,3) length_marshal by (simp del: marshal.simps)
  obtain m' where P: "Put B m ?k ?v = (None, m')" using p by (cases "Put B m ?k ?v") simp
  have "lookup m' (marshal little ?k) = Some (marshal little ?v)"
    using put_same [OF ok(1) p] P by simp
  then have "blocked_until little lookup m' k = Some (expiry_of now (req_TTLSeconds req))"
    by (simp add: blocked_until_def del: marshal.simps)
  moreover have "loader_map key_size value_size ok m'"
    using put_ok [OF ok(1), of ?k ?v] put_sizes [OF ok(1), of ?k ?v] ok P by (simp add: loader_map_def)
  moreover have "req_IP req \<noteq> []" using k by auto
  ultimately show ?thesis using k P req by (auto simp: handleAddBlock_def expiry_of_def)
qed

lemma add_block_other:
  assumes run: "handleAddBlock B show_json show_ip show_map now reqBody m = (Returns (c_JSON StatusCreated j), m')"
    and m: "loader_map key_size value_size ok m" and k: "ipToUint32 (req_IP req) = Returns (Inr k)"
    and req: "decode_block_request reqBody = Inr req"
    and kb: "kb \<noteq> marshal little (U32 k)" "lookup m kb = None"
  shows "lookup m' kb = None"
proof -
  let ?v = "U64 (if 0 < sint (req_TTLSeconds req) then now + req_TTLSeconds req else 0)"
  have ok: "ok m" "key_size m = 4" "value_size m = 8" using m by (simp_all add: loader_map_def)
  have p: "fst (Put B m (U32 k) ?v) = None"
    using put_reply [OF ok(1), of "U32 k" ?v] ok(2,3) length_marshal by (simp del: marshal.simps)
  have "req_IP req \<noteq> []" using k by auto
  then have "m' = snd (Put B m (U32 k) ?v)"
    using run k p req by (cases "Put B m (U32 k) ?v") (auto simp: handleAddBlock_def Let_def split: if_splits)
  then show ?thesis using put_other [OF ok(1) p kb(1)] kb(2) by auto
qed

lemma add_block_invalid:
  assumes "\<not> (\<exists>req k. decode_block_request reqBody = Inr req \<and> ipToUint32 (req_IP req) = Returns (Inr k))"
  shows "\<exists>r. handleAddBlock B show_json show_ip show_map now reqBody m = (Returns r, m) \<and> status r = StatusBadRequest"
proof (cases "decode_block_request reqBody")
  case (Inr req)
  then obtain e where "ipToUint32 (req_IP req) = Returns (Inl e)"
    using assms ipToUint32_total [of "req_IP req"] by (metis old.sum.exhaust outcome.exhaust)
  with Inr show ?thesis by (simp add: handleAddBlock_def)
qed (simp add: handleAddBlock_def)

lemma remove_block:
  assumes m: "loader_map key_size value_size ok m" and k: "ipToUint32 ip = Returns (Inr k)"
    and b: "blocked_until little lookup m k \<noteq> None"
  shows "\<exists>m'. handleRemoveBlock B show_ip show_map ip m =
        (Returns (c_JSON StatusOK (JObj [(''ip'', JStr ip), (''status'', JStr ''unblocked'')])), m')
      \<and> loader_map key_size value_size ok m'
      \<and> blocked_until little lookup m' = (blocked_until little lookup m)(k := None)"
proof -
  have ok: "ok m" "key_size m = 4" "value_size m = 8" using m by (simp_all add: loader_map_def)
  have d: "fst (Delete B m (U32 k)) = None"
    using delete_reply [OF ok(1), of "U32 k"] ok(2) b length_marshal(1) [of little k]
    by (auto simp: blocked_until_def simp del: marshal.simps)
  obtain m' where D: "Delete B m (U32 k) = (None, m')" using d by (cases "Delete B m (U32 k)") simp
  have "lookup m' = (lookup m)(marshal little (U32 k) := None)" using delete_lookup [OF ok(1) d] D by simp
  then have "blocked_until little lookup m' = (blocked_until little lookup m)(k := None)"
    by (auto simp: blocked_until_def fun_eq_iff)
  moreover have "loader_map key_size value_size ok m'"
    using delete_ok [OF ok(1), of "U32 k"] delete_sizes [OF ok(1), of "U32 k"] ok D by (simp add: loader_map_def)
  ultimately show ?thesis using k D by (auto simp: handleRemoveBlock_def)
qed

lemma remove_block_absent:
  assumes m: "loader_map key_size value_size ok m" and k: "ipToUint32 ip = Returns (Inr k)"
    and b: "blocked_until little lookup m k = None"
  shows "handleRemoveBlock B show_ip show_map ip m =
     (Returns (http_Error (''ip not found or map error: '' @ show_map KeyNotExist) StatusNotFound), m)"
proof -
  have ok: "ok m" "key_size m = 4" using m by (simp_all add: loader_map_def)
  have d: "fst (Delete B m (U32 k)) = Some KeyNotExist"
    using delete_reply [OF ok(1), of "U32 k"] ok(2) b length_marshal(1) [of little k]
    by (auto simp: blocked_until_def simp del: marshal.simps)
  then have "Delete B m (U32 k) = (Some KeyNotExist, m)"
    using delete_bad [OF ok(1), of "U32 k"] by (cases "Delete B m (U32 k)") simp
  with k show ?thesis by (simp add: handleRemoveBlock_def)
qed

text \<open>The listing has exactly one entry per blocked address.\<close>

lemma iterate_decodes:
  assumes m: "loader_map key_size value_size ok m" and kv: "kv \<in> set (snd (Iterate B m))"
  obtains k v where "kv = (marshal little (U32 k), marshal little (U64 v))" "blocked_until little lookup m k = Some v"
proof -
  have ok: "ok m" "key_size m = 4" "value_size m = 8" using m by (simp_all add: loader_map_def)
  obtain kb vb where [simp]: "kv = (kb, vb)" by fastforce
  have l: "lookup m kb = Some vb"
    using map_of_is_SomeI [OF iterate_entries(3) [OF ok(1)], of kb vb] kv iterate_entries(2) [OF ok(1)] by simp
  then have sz: "length kb = 4" "length vb = 8" using lookup_sizes [OF ok(1)] ok(2,3) by auto
  obtain k where k: "kb = marshal little (U32 k)" using sz(1) by (rule marshal_U32_surj)
  obtain v where v: "vb = marshal little (U64 v)" using sz(2) by (rule marshal_U64_surj)
  show ?thesis
    by (rule that [of k v]) (use l k v u64_of_marshal in \<open>simp_all add: blocked_until_def del: marshal.simps\<close>)
qed

lemma list_blocks_eq:
  assumes m: "loader_map key_size value_size ok m"
  shows "list_blocks B little now m =
     (None, map (list_entry now \<circ> the \<circ> decode_entry little) (snd (Iterate B m)))"
proof -
  have "list_all (\<lambda>kv. decode_entry little kv \<noteq> None) (snd (Iterate B m))"
    unfolding list_all_iff by (auto elim: iterate_decodes [OF m] simp del: marshal.simps)
  moreover have "fst (Iterate B m) = None" using m iterate_entries(1) by (simp add: loader_map_def)
  ultimately show ?thesis
    by (cases "Iterate B m") (simp add: list_blocks_def list_loop_eq)
qed

lemma list_blocks_set:
  assumes m: "loader_map key_size value_size ok m"
  shows "set (snd (list_blocks B little now m)) =
     {list_entry now (k, v) | k v. blocked_until little lookup m k = Some v}"
proof (intro set_eqI iffI)
  fix e assume "e \<in> set (snd (list_blocks B little now m))"
  then obtain kv where kv: "kv \<in> set (snd (Iterate B m))" "e = list_entry now (the (decode_entry little kv))"
    by (auto simp: list_blocks_eq [OF m])
  obtain k v where "kv = (marshal little (U32 k), marshal little (U64 v))" "blocked_until little lookup m k = Some v"
    using kv(1) by (rule iterate_decodes [OF m])
  with kv(2) show "e \<in> {list_entry now (k, v) | k v. blocked_until little lookup m k = Some v}"
    by (auto simp del: marshal.simps)
next
  fix e assume "e \<in> {list_entry now (k, v) | k v. blocked_until little lookup m k = Some v}"
  then obtain k v where e: "e = list_entry now (k, v)" "blocked_until little lookup m k = Some v" by blast
  then obtain vb where vb: "lookup m (marshal little (U32 k)) = Some vb" "u64_of little vb = v"
    by (auto simp: blocked_until_def)
  have ok: "ok m" using m by (simp add: loader_map_def)
  have kv: "(marshal little (U32 k), vb) \<in> set (snd (Iterate B m))"
    using vb(1) by (intro map_of_SomeD) (simp only: iterate_entries(2) [OF ok])
  then obtain v' where "vb = marshal little (U64 v')"
    by (rule iterate_decodes [OF m]) simp
  with vb(2) kv e(1) show "e \<in> set (snd (list_blocks B little now m))"
    unfolding list_blocks_eq [OF m] by (force simp del: marshal.simps)
qed

lemma list_blocks_distinct:
  assumes m: "loader_map key_size value_size ok m"
  shows "distinct (map ent_IP (snd (list_blocks B little now m)))"
proof -
  let ?key = "\<lambda>kv. ent_IP (list_entry now (the (decode_entry little kv)))"
  have ip: "?key kv = uint32ToIP k" if "fst kv = marshal little (U32 k)" "kv \<in> set (snd (Iterate B m))" for kv k
    using that by (auto elim!: iterate_decodes [OF m] simp: list_entry_def Let_def simp del: marshal.simps)
  have ok: "ok m" using m by (simp add: loader_map_def)
  have d: "distinct (map fst (snd (Iterate B m)))" by (rule iterate_entries(3) [OF ok])
  have "inj_on ?key (set (snd (Iterate B m)))"
  proof (rule inj_onI)
    fix x y assume x: "x \<in> set (snd (Iterate B m))" and y: "y \<in> set (snd (Iterate B m))" and eq: "?key x = ?key y"
    obtain k v where k: "x = (marshal little (U32 k), marshal little (U64 v))" using x by (rule iterate_decodes [OF m])
    obtain k' v' where k': "y = (marshal little (U32 k'), marshal little (U64 v'))" using y by (rule iterate_decodes [OF m])
    have "uint32ToIP k = uint32ToIP k'" using ip [of x k] ip [of y k'] x y k k' eq by simp
    then have "fst x = fst y" using k k' by simp
    with d x y show "x = y" by (auto simp: distinct_map dest: inj_onD)
  qed
  then show ?thesis using d by (simp add: list_blocks_eq [OF m] distinct_map comp_def)
qed

end

subsection \<open>Properties\<close>

lemma list_entry_sel [simp]: "ent_IP (list_entry now (k, v)) = uint32ToIP k"
  by (simp add: list_entry_def Let_def)

lemma expiry_remaining:
  assumes "0 \<le> sint now" "fits_int64 (sint now + sint ttl)"
  shows "sint (ent_TTLRemaining (list_entry now (k, expiry_of now ttl))) = (if 0 < sint ttl then sint ttl else - 1)"
proof (cases "0 < sint ttl")
  case True
  have "sint (now + ttl) = sint now + sint ttl" by (rule sint_add_int64 [OF assms(2)])
  then have "now + ttl \<noteq> 0" using assms(1) True by auto
  with True show ?thesis by (simp add: list_entry_def expiry_of_def Let_def)
qed (simp add: list_entry_def expiry_of_def)

lemma serve_block:
  "serve B little show_json show_ip show_map now ''POST'' ''/block'' reqBody m = handleAddBlock B show_json show_ip show_map now reqBody m"
  "serve B little show_json show_ip show_map now ''DELETE'' (''/block/'' @ ip) reqBody m = handleRemoveBlock B show_ip show_map ip m"
  by (simp_all add: flow_simps)

text \<open>
  C30. A \<^verbatim>\<open>POST /block\<close> with an IPv4 address answers 201, and the listing then shows that address with
  the requested time to live, or without expiry when none (zero or less) was requested.
\<close>

theorem post_then_list:
  assumes "bpf_map B little lookup key_size value_size ok" "loader_map key_size value_size ok m"
    and "ipToUint32 (req_IP req) = Returns (Inr k)"
    and "0 \<le> sint now" "fits_int64 (sint now + sint (req_TTLSeconds req))"
    and "decode_block_request reqBody = Inr req"
  shows "\<exists>r m' e. serve B little show_json show_ip show_map now ''POST'' ''/block'' reqBody m = (Returns r, m') \<and> status r = StatusCreated \<and>
     fst (list_blocks B little now m') = None \<and> e \<in> set (snd (list_blocks B little now m')) \<and> ent_IP e = uint32ToIP k \<and>
     sint (ent_TTLRemaining e) = (if 0 < sint (req_TTLSeconds req) then sint (req_TTLSeconds req) else - 1)"
proof -
  obtain m' where m': "handleAddBlock B show_json show_ip show_map now reqBody m =
        (Returns (c_JSON StatusCreated (JObj [(''ip'', JStr (req_IP req)), (''status'', JStr ''blocked'')])), m')"
      "loader_map key_size value_size ok m'" "blocked_until little lookup m' k = Some (expiry_of now (req_TTLSeconds req))"
    using bpf_map.add_block [OF assms(1-3,6)] by blast
  let ?e = "list_entry now (k, expiry_of now (req_TTLSeconds req))"
  have "?e \<in> set (snd (list_blocks B little now m'))"
    unfolding bpf_map.list_blocks_set [OF assms(1) m'(2)] using m'(3) by blast
  moreover have "fst (list_blocks B little now m') = None" by (simp add: bpf_map.list_blocks_eq [OF assms(1) m'(2)])
  ultimately show ?thesis using m'(1) expiry_remaining [OF assms(4,5), of k] unfolding serve_block
    by (intro exI [of _ "c_JSON StatusCreated (JObj [(''ip'', JStr (req_IP req)), (''status'', JStr ''blocked'')])"]
        exI [of _ m'] exI [of _ ?e]) simp
qed

abbreviation sample_request :: "int64 \<Rightarrow> blockRequest" where
  "sample_request ttl \<equiv> \<lparr> req_IP = ''10.0.0.1'', req_TTLSeconds = ttl \<rparr>"

text \<open>A request body, and what it is decoded to.\<close>

definition request_body :: "string \<Rightarrow> int64 \<Rightarrow> string" where
  "request_body ip ttl = print_value (VObj [(''ip'', VStr ip), (''ttl_seconds'', VNum (show_int (sint ttl)))])"

lemma decode_request_body:
  assumes "valid_utf8 ip"
  shows "decode_block_request (request_body ip ttl) = Inr \<lparr> req_IP = ip, req_TTLSeconds = ttl \<rparr>"
proof -
  have "decode_text (request_body ip ttl) = Inr (VObj [(''ip'', VStr ip), (''ttl_seconds'', VNum (show_int (sint ttl)))])"
    unfolding request_body_def using assms
    by (intro decode_print) (simp_all add: valid_utf8_all_ascii in_range_def maxNestingDepth_def)
  then show ?thesis
    by (simp add: decode_block_request_def Decode_def finish_decode_def decode_member_def find_field_def block_fields_def
        field_of_def del: store_int.simps)
qed

abbreviation sample_body :: "int64 \<Rightarrow> string" where
  "sample_body ttl \<equiv> request_body ''10.0.0.1'' ttl"

lemma decode_sample_body [simp]: "decode_block_request (sample_body ttl) = Inr (sample_request ttl)"
  by (rule decode_request_body) (simp add: valid_utf8_all_ascii in_range_def)

lemma sample_key [simp]: "ipToUint32 ''10.0.0.1'' = Returns (Inr 0x0A000001)"
  by code_simp

lemma new_loader_map [simp]: "0 < n \<Longrightarrow> loader_map lru_key lru_value lru_ok (new_lru n 4 8)"
  by (simp add: loader_map_def)

theorem post_then_list_witness:
  "\<exists>r m' e. serve (lru_bpf True) True (\<lambda>_. []) (\<lambda>_. []) (\<lambda>_. []) 1700000000 ''POST'' ''/block'' (sample_body 3600) (new_lru 100000 4 8)
       = (Returns r, m') \<and> status r = StatusCreated \<and>
     fst (list_blocks (lru_bpf True) True 1700000000 m') = None \<and>
     e \<in> set (snd (list_blocks (lru_bpf True) True 1700000000 m')) \<and> ent_IP e = uint32ToIP 0x0A000001 \<and>
     sint (ent_TTLRemaining e) = (if 0 < sint (3600 :: int64) then sint (3600 :: int64) else - 1)"
  using post_then_list [where B = "lru_bpf True" and little = True and m = "new_lru 100000 4 8" and req = "sample_request 3600" and reqBody = "sample_body 3600"
      and k = "0x0A000001" and now = 1700000000 and show_json = "\<lambda>_. []" and show_ip = "\<lambda>_. []" and show_map = "\<lambda>_. []", OF lru.bpf_map_axioms]
  by (simp add: fits_int64_iff)

text \<open>
  C31. A \<^verbatim>\<open>DELETE\<close> of a blocked address answers 200 and unblocks exactly that address; a second one
  answers 404 and changes nothing.
\<close>

theorem delete_unblocks:
  assumes "bpf_map B little lookup key_size value_size ok" "loader_map key_size value_size ok m"
    and "ipToUint32 ip = Returns (Inr k)" "blocked_until little lookup m k \<noteq> None"
  shows "\<exists>r m' r'. serve B little show_json show_ip show_map now ''DELETE'' (''/block/'' @ ip) reqBody m = (Returns r, m') \<and> status r = StatusOK \<and>
     blocked_until little lookup m' = (blocked_until little lookup m)(k := None) \<and>
     serve B little show_json show_ip show_map now ''DELETE'' (''/block/'' @ ip) reqBody m' = (Returns r', m') \<and> status r' = StatusNotFound"
proof -
  obtain m' where m': "handleRemoveBlock B show_ip show_map ip m =
        (Returns (c_JSON StatusOK (JObj [(''ip'', JStr ip), (''status'', JStr ''unblocked'')])), m')"
      "loader_map key_size value_size ok m'" "blocked_until little lookup m' = (blocked_until little lookup m)(k := None)"
    using bpf_map.remove_block [OF assms] by blast
  then show ?thesis using bpf_map.remove_block_absent [OF assms(1) m'(2) assms(3)] unfolding serve_block by simp
qed

definition sample_blocked :: lru where
  "sample_blocked = snd (lru_Put True (new_lru 100000 4 8) (U32 0x0A000001) (U64 0))"

lemma sample_blocked_ok:
  "loader_map lru_key lru_value lru_ok sample_blocked" "blocked_until True lru_lookup sample_blocked 0x0A000001 \<noteq> None"
  using lru.put_ok [of "new_lru 100000 4 8" True "U32 0x0A000001" "U64 0"]
    lru.put_sizes [of "new_lru 100000 4 8" True "U32 0x0A000001" "U64 0"]
    lru.put_reply [of "new_lru 100000 4 8" True "U32 0x0A000001" "U64 0"]
    lru.put_same [of "new_lru 100000 4 8" True "U32 0x0A000001" "U64 0"]
  by (simp_all add: sample_blocked_def loader_map_def blocked_until_def lru_bpf_def be64_def)

theorem delete_unblocks_witness:
  "\<exists>r m' r'. serve (lru_bpf True) True (\<lambda>_. []) (\<lambda>_. []) (\<lambda>_. []) 0 ''DELETE'' (''/block/'' @ ''10.0.0.1'') [] sample_blocked = (Returns r, m') \<and>
     status r = StatusOK \<and>
     blocked_until True lru_lookup m' = (blocked_until True lru_lookup sample_blocked)(0x0A000001 := None) \<and>
     serve (lru_bpf True) True (\<lambda>_. []) (\<lambda>_. []) (\<lambda>_. []) 0 ''DELETE'' (''/block/'' @ ''10.0.0.1'') [] m' = (Returns r', m') \<and>
     status r' = StatusNotFound"
  by (rule delete_unblocks [OF lru.bpf_map_axioms sample_blocked_ok(1) sample_key sample_blocked_ok(2)])

text \<open>The listing has exactly one entry for every blocked address and none besides, expired blocks included.\<close>

lemma listing_exact:
  assumes "bpf_map B little lookup key_size value_size ok" "loader_map key_size value_size ok m"
  shows "fst (list_blocks B little now m) = None \<and> distinct (map ent_IP (snd (list_blocks B little now m))) \<and>
     set (snd (list_blocks B little now m)) = {list_entry now (k, v) | k v. blocked_until little lookup m k = Some v}"
  using bpf_map.list_blocks_eq [OF assms] bpf_map.list_blocks_distinct [OF assms] bpf_map.list_blocks_set [OF assms] by simp

text \<open>
  Printing a map key and parsing it back gives the key, so the addresses a listing shows
  can be passed to \<^verbatim>\<open>DELETE\<close>; different keys print differently, and parsing never panics.
\<close>

lemma loader_key_round_trip:
  "ipToUint32 (uint32ToIP v) = Returns (Inr v) \<and> (uint32ToIP v = uint32ToIP w) = (v = w) \<and> ipToUint32 s \<noteq> Panics"
  using ipToUint32_total by simp

end
