(* ===== verification/LoaderAttach.thy ===== *)
theory LoaderAttach
  imports Config
begin

text \<open>
  \<^verbatim>\<open>ebpf/loader/main.go\<close>, start-up: loading the compiled object, reusing or creating the pinned
  map, attaching the filter. The kernel and the libraries \<^verbatim>\<open>cilium/ebpf\<close> and \<^verbatim>\<open>go-tc\<close> are a
  parameter, a record of calls on a kernel state \<open>'k\<close>; maps are named by an identity. The
  locale \<open>bpf_loading\<close> states the documented treatment of pinned maps, and a small kernel
  satisfies it.
\<close>

definition bpfPinPath :: string where "bpfPinPath = ''/sys/fs/bpf/blocked_ips''"
definition bpfObjPath :: string where "bpfObjPath = ''tc_blocker.o''"
definition apiAddr :: string where "apiAddr = '':9000''"
definition defaultInterface :: string where "defaultInterface = ''eth0''"

subsection \<open>Library data\<close>

datatype PinType = PinNone | PinByName
datatype map_type = HashMap | LRUHash

record MapSpec =
  ms_Name :: string
  ms_Type :: map_type
  ms_KeySize :: nat
  ms_ValueSize :: nat
  ms_MaxEntries :: nat
  ms_Pinning :: PinType

record CollectionSpec =
  cs_Maps :: "string \<rightharpoonup> MapSpec"
  cs_Programs :: "string list"

record Program =
  pr_Name :: string
  pr_Maps :: "string \<rightharpoonup> nat"  \<comment> \<open>the maps its code refers to\<close>

datatype tc_parent = TcIngress | TcHandleRoot

record tc_Object =
  tc_Ifindex :: uint32
  tc_Handle :: uint32
  tc_Parent :: tc_parent
  tc_Info :: uint32
  tc_Kind :: string
  tc_BPF :: "(Program \<times> string \<times> uint32) option"  \<comment> \<open>program, name, flags\<close>

record 'k kernel =
  LoadCollectionSpec :: "string \<Rightarrow> string + CollectionSpec"
  Stat :: "string \<Rightarrow> 'k \<Rightarrow> string option"
  LoadPinnedMap :: "string \<Rightarrow> 'k \<Rightarrow> string + nat"
  NewCollection :: "CollectionSpec \<Rightarrow> string \<Rightarrow> 'k \<Rightarrow> (string + (string \<rightharpoonup> Program)) \<times> 'k"
  InterfaceByName :: "string \<Rightarrow> 'k \<Rightarrow> string + int"
  tc_Open :: "'k \<Rightarrow> string option"
  Qdisc_Add :: "tc_Object \<Rightarrow> 'k \<Rightarrow> string option \<times> 'k"
  Filter_Replace :: "tc_Object \<Rightarrow> 'k \<Rightarrow> string option \<times> 'k"
  BuildHandle :: "uint32 \<Rightarrow> uint32 \<Rightarrow> uint32"
  RemoveMemlock :: "'k \<Rightarrow> string option"

subsection \<open>Helpers\<close>

definition loader_getEnv :: "env \<Rightarrow> string \<Rightarrow> string \<Rightarrow> string" where
  "loader_getEnv env key def = (let v = Getenv env key in if v \<noteq> [] then v else def)"

text \<open>\<^verbatim>\<open>filepath.Dir\<close> of a clean absolute path below the root.\<close>

definition Dir :: "string \<Rightarrow> string" where
  "Dir p = rev (tl (dropWhile (\<lambda>c. c \<noteq> CHR ''/'') (rev p)))"

text \<open>
  \<^verbatim>\<open>isEexist\<close> as it is meant to be compiled (\<^verbatim>\<open>Sscanf\<close> returns two values; the source binds
  one). A text that scans as \<^verbatim>\<open>errno %d\<close> is stored through a nil pointer: a panic.
\<close>

definition scans_errno :: "string \<Rightarrow> bool" where
  "scans_errno msg \<longleftrightarrow> take 6 msg = ''errno '' \<and>
     (case dropWhile (\<lambda>c. c = CHR '' '') (drop 6 msg) of
        [] \<Rightarrow> False
      | c # cs \<Rightarrow> is_digit c \<or> (c = CHR ''-'' \<or> c = CHR ''+'') \<and> cs \<noteq> [] \<and> is_digit (hd cs))"

definition isEexist :: "string option \<Rightarrow> bool outcome" where
  "isEexist err =
     (case err of
        None \<Rightarrow> Returns False
      | Some msg \<Rightarrow>
          if scans_errno msg then Panics
          else Returns (msg = ''file exists'' \<or> msg = ''errno '' @ show_nat 17))"

subsection \<open>Start-up\<close>

datatype attach_error =
    NoSpec string | NoMap | PinFailed string | CollectionFailed string | NoProgram
  | NoInterface string | QdiscFailed string | TcOpenFailed string | FilterFailed string | ReopenFailed string

definition ensureClsactQdisc :: "'k kernel \<Rightarrow> int \<Rightarrow> 'k \<Rightarrow> string option outcome \<times> 'k" where
  "ensureClsactQdisc L ifindex k =
     (case tc_Open L k of
        Some err \<Rightarrow> (Returns (Some err), k)
      | None \<Rightarrow>
          (case Qdisc_Add L \<lparr> tc_Ifindex = of_int ifindex, tc_Handle = BuildHandle L 0xFFFF 0,
                  tc_Parent = TcHandleRoot, tc_Info = 0, tc_Kind = ''clsact'', tc_BPF = None \<rparr> k of
             (None, k') \<Rightarrow> (Returns None, k')
           | (Some err, k') \<Rightarrow>
               (case isEexist (Some err) of
                  Panics \<Rightarrow> (Panics, k')
                | Returns True \<Rightarrow> (Returns None, k')
                | Returns False \<Rightarrow> (Returns (Some (''Qdisc.Add clsact: '' @ err)), k'))))"

text \<open>The map specification the reload branch puts in place: five fields, pinning left at its zero value.\<close>

definition respec :: "MapSpec \<Rightarrow> MapSpec" where
  "respec ms = \<lparr> ms_Name = ms_Name ms, ms_Type = ms_Type ms, ms_KeySize = ms_KeySize ms,
     ms_ValueSize = ms_ValueSize ms, ms_MaxEntries = ms_MaxEntries ms, ms_Pinning = PinNone \<rparr>"

definition attach_filter :: "'k kernel \<Rightarrow> int \<Rightarrow> Program \<Rightarrow> tc_Object" where
  "attach_filter L ifindex prog =
     \<lparr> tc_Ifindex = of_int ifindex, tc_Handle = BuildHandle L 0xFFFF 0, tc_Parent = TcIngress, tc_Info = 0x300,
       tc_Kind = ''bpf'', tc_BPF = Some (prog, ''tc_ingress_blocker'', 0x1) \<rparr>"

definition loadAndAttach :: "'k kernel \<Rightarrow> string \<Rightarrow> 'k \<Rightarrow> (attach_error + nat) outcome \<times> 'k" where
  "loadAndAttach L iface k0 =
     (case LoadCollectionSpec L bpfObjPath of
        Inl err \<Rightarrow> (Returns (Inl (NoSpec err)), k0)
      | Inr spec \<Rightarrow>
          (case cs_Maps spec ''blocked_ips'' of
             None \<Rightarrow> (Returns (Inl NoMap), k0)
           | Some mapSpec \<Rightarrow>
               (case (if Stat L bpfPinPath k0 = None
                      then (case LoadPinnedMap L bpfPinPath k0 of
                              Inl err \<Rightarrow> Inl (PinFailed err)
                            | Inr pinnedMap \<Rightarrow>
                                Inr (spec\<lparr> cs_Maps := (cs_Maps spec)(''blocked_ips'' \<mapsto> respec mapSpec) \<rparr>))
                      else Inr spec) of
                  Inl e \<Rightarrow> (Returns (Inl e), k0)
                | Inr spec' \<Rightarrow>
                    (case NewCollection L spec' (Dir bpfPinPath) k0 of
                       (Inl err, k1) \<Rightarrow> (Returns (Inl (CollectionFailed err)), k1)
                     | (Inr coll, k1) \<Rightarrow>
                         (case coll ''tc_ingress_blocker'' of
                            None \<Rightarrow> (Returns (Inl NoProgram), k1)
                          | Some prog \<Rightarrow>
                              (case InterfaceByName L iface k1 of
                                 Inl err \<Rightarrow> (Returns (Inl (NoInterface err)), k1)
                               | Inr ifindex \<Rightarrow>
                                   (case ensureClsactQdisc L ifindex k1 of
                                      (Panics, k2) \<Rightarrow> (Panics, k2)
                                    | (Returns (Some err), k2) \<Rightarrow> (Returns (Inl (QdiscFailed err)), k2)
                                    | (Returns None, k2) \<Rightarrow>
                                        (case tc_Open L k2 of
                                           Some err \<Rightarrow> (Returns (Inl (TcOpenFailed err)), k2)
                                         | None \<Rightarrow>
                                             (case Filter_Replace L (attach_filter L ifindex prog) k2 of
                                                (Some err, k3) \<Rightarrow> (Returns (Inl (FilterFailed err)), k3)
                                              | (None, k3) \<Rightarrow>
                                                  (case LoadPinnedMap L bpfPinPath k3 of
                                                     Inl err \<Rightarrow> (Returns (Inl (ReopenFailed err)), k3)
                                                   | Inr openedMap \<Rightarrow> (Returns (Inr openedMap), k3)))))))))))"

datatype startup = Fatal string | AttachFatal attach_error | StartupPanic | Serving string nat  \<comment> \<open>interface and map\<close>

definition loader_main :: "'k kernel \<Rightarrow> env \<Rightarrow> 'k \<Rightarrow> startup \<times> 'k" where
  "loader_main L env k =
     (let iface = loader_getEnv env ''IFACE'' defaultInterface
      in case RemoveMemlock L k of
           Some err \<Rightarrow> (Fatal err, k)
         | None \<Rightarrow>
             (case loadAndAttach L iface k of
                (Panics, k') \<Rightarrow> (StartupPanic, k')
              | (Returns (Inl err), k') \<Rightarrow> (AttachFatal err, k')
              | (Returns (Inr m), k') \<Rightarrow> (Serving iface m, k')))"

lemma Dir_pin: "Dir bpfPinPath @ ''/blocked_ips'' = bpfPinPath"
  by code_simp

subsection \<open>What loading a collection does to pinned maps\<close>

text \<open>
  \<open>pins k\<close> maps a path to the map pinned there, \<open>maps k\<close> are the maps in existence, \<open>filter_on k i\<close>
  the program attached to interface \<open>i\<close>. A map whose specification says \<^verbatim>\<open>PinByName\<close> is taken from
  its pin below the pin path, or created and pinned there; one that says \<^verbatim>\<open>PinNone\<close> is created.
\<close>

locale bpf_loading =
  fixes L :: "'k kernel"
    and pins :: "'k \<Rightarrow> string \<rightharpoonup> nat"
    and existing :: "'k \<Rightarrow> nat set"
    and filter_on :: "'k \<Rightarrow> uint32 \<Rightarrow> Program option"
  assumes stat: "Stat L p k = None \<longleftrightarrow> pins k p \<noteq> None"
    and open_pin: "pins k p = Some i \<Longrightarrow> LoadPinnedMap L p k = Inr i"
    and open_unpinned: "pins k p = None \<Longrightarrow> \<exists>err. LoadPinnedMap L p k = Inl err"
    and pinned_exist: "pins k p = Some i \<Longrightarrow> i \<in> existing k"
    and new_shared: "NewCollection L spec dir k = (Inr coll, k') \<Longrightarrow> cs_Maps spec ''blocked_ips'' = Some ms \<Longrightarrow>
        ms_Pinning ms = PinByName \<Longrightarrow> ms_Name ms = ''blocked_ips'' \<Longrightarrow> coll pn = Some prog \<Longrightarrow>
        \<exists>i. pr_Maps prog ''blocked_ips'' = Some i \<and> pins k' (dir @ ''/blocked_ips'') = Some i"
    and new_private: "NewCollection L spec dir k = (Inr coll, k') \<Longrightarrow> cs_Maps spec ''blocked_ips'' = Some ms \<Longrightarrow>
        ms_Pinning ms = PinNone \<Longrightarrow> coll pn = Some prog \<Longrightarrow>
        \<exists>i. pr_Maps prog ''blocked_ips'' = Some i \<and> i \<notin> existing k"
    and new_keeps_pins: "NewCollection L spec dir k = (Inr coll, k') \<Longrightarrow> pins k p = Some i \<Longrightarrow> pins k' p = Some i"
    and new_pins_below: "NewCollection L spec dir k = (r, k') \<Longrightarrow> pins k p = None \<Longrightarrow> pins k' p \<noteq> None \<Longrightarrow>
        \<exists>name \<in> dom (cs_Maps spec). p = dir @ ''/'' @ name"
    and qdisc_pins: "pins (snd (Qdisc_Add L obj k)) = pins k"
    and filter_pins: "pins (snd (Filter_Replace L obj k)) = pins k"
    and filter_attached: "fst (Filter_Replace L obj k) = None \<Longrightarrow>
        filter_on (snd (Filter_Replace L obj k)) (tc_Ifindex obj) = map_option fst (tc_BPF obj)"

begin

lemma qdisc_keeps_pins:
  assumes "ensureClsactQdisc L i k = (r, k')"
  shows "pins k' = pins k"
  using assms qdisc_pins
  by (auto simp: ensureClsactQdisc_def split: option.splits prod.splits outcome.splits bool.splits)
    (metis snd_conv)+

text \<open>The steps of a start that succeeds.\<close>

lemma loadAndAttach_Inr:
  assumes "loadAndAttach L iface k = (Returns (Inr m), k')"
  obtains spec ms coll k1 prog ifindex where
    "LoadCollectionSpec L bpfObjPath = Inr spec" "cs_Maps spec ''blocked_ips'' = Some ms"
    "NewCollection L (if Stat L bpfPinPath k = None
        then spec\<lparr> cs_Maps := (cs_Maps spec)(''blocked_ips'' \<mapsto> respec ms) \<rparr> else spec) (Dir bpfPinPath) k = (Inr coll, k1)"
    "coll ''tc_ingress_blocker'' = Some prog" "InterfaceByName L iface k1 = Inr ifindex"
    "filter_on k' (of_int ifindex) = Some prog" "pins k' = pins k1" "LoadPinnedMap L bpfPinPath k' = Inr m"
proof -
  from assms obtain spec ms where spec: "LoadCollectionSpec L bpfObjPath = Inr spec" "cs_Maps spec ''blocked_ips'' = Some ms"
    by (auto simp: loadAndAttach_def split: sum.splits option.splits)
  let ?spec = "if Stat L bpfPinPath k = None
        then spec\<lparr> cs_Maps := (cs_Maps spec)(''blocked_ips'' \<mapsto> respec ms) \<rparr> else spec"
  from assms spec obtain coll k1 where coll: "NewCollection L ?spec (Dir bpfPinPath) k = (Inr coll, k1)"
    by (auto simp: loadAndAttach_def split: sum.splits prod.splits if_splits)
  from assms spec coll obtain prog ifindex k2 k3 where
    p: "coll ''tc_ingress_blocker'' = Some prog" "InterfaceByName L iface k1 = Inr ifindex"
      "ensureClsactQdisc L ifindex k1 = (Returns None, k2)"
      "Filter_Replace L (attach_filter L ifindex prog) k2 = (None, k3)" "LoadPinnedMap L bpfPinPath k3 = Inr m" "k3 = k'"
    by (auto simp: loadAndAttach_def split: sum.splits option.splits prod.splits outcome.splits if_splits)
  have "pins k' = pins k1" using filter_pins [of "attach_filter L ifindex prog" k2] qdisc_keeps_pins [OF p(3)] p by simp
  moreover have "filter_on k' (of_int ifindex) = Some prog"
    using filter_attached [of "attach_filter L ifindex prog" k2] p by (simp add: attach_filter_def)
  ultimately show ?thesis using that spec coll p by blast
qed

text \<open>First start: the attached program and the handlers share the newly pinned map.\<close>

lemma first_start_shares:
  assumes run: "loadAndAttach L iface k = (Returns (Inr m), k')" and fresh: "pins k bpfPinPath = None"
    and obj: "LoadCollectionSpec L bpfObjPath = Inr spec" "cs_Maps spec ''blocked_ips'' = Some ms"
      "ms_Pinning ms = PinByName" "ms_Name ms = ''blocked_ips''"
  shows "\<exists>i prog. filter_on k' i = Some prog \<and> pr_Maps prog ''blocked_ips'' = Some m \<and> pins k' bpfPinPath = Some m"
  using run
proof (rule loadAndAttach_Inr)
  fix spec' ms' coll k1 prog ifindex
  assume s: "LoadCollectionSpec L bpfObjPath = Inr spec'" "cs_Maps spec' ''blocked_ips'' = Some ms'"
    "NewCollection L (if Stat L bpfPinPath k = None
        then spec'\<lparr> cs_Maps := (cs_Maps spec')(''blocked_ips'' \<mapsto> respec ms') \<rparr> else spec') (Dir bpfPinPath) k = (Inr coll, k1)"
    "coll ''tc_ingress_blocker'' = Some prog" "filter_on k' (of_int ifindex) = Some prog" "pins k' = pins k1"
    "LoadPinnedMap L bpfPinPath k' = Inr m"
  have "NewCollection L spec (Dir bpfPinPath) k = (Inr coll, k1)" using s(1,3) obj(1) fresh by (simp add: stat)
  from new_shared [OF this obj(2,3,4) s(4)] obtain i where
    i: "pr_Maps prog ''blocked_ips'' = Some i" "pins k1 bpfPinPath = Some i" using Dir_pin by auto
  then have "i = m" using open_pin [of k' bpfPinPath i] s(6,7) by simp
  with i s(5,6) show ?thesis by auto
qed

text \<open>
  Reload over an existing pin: the handlers get the old map, the program that is attached
  reads a new one.
\<close>

lemma reload_splits:
  assumes run: "loadAndAttach L iface k = (Returns (Inr m), k')" and pin: "pins k bpfPinPath = Some i"
  shows "m = i \<and> (\<exists>ix prog j. filter_on k' ix = Some prog \<and> pr_Maps prog ''blocked_ips'' = Some j \<and> j \<noteq> m)"
  using run
proof (rule loadAndAttach_Inr)
  fix spec :: CollectionSpec and ms coll k1 prog ifindex
  let ?spec = "spec\<lparr> cs_Maps := (cs_Maps spec)(''blocked_ips'' \<mapsto> respec ms) \<rparr>"
  assume s: "NewCollection L (if Stat L bpfPinPath k = None then ?spec else spec) (Dir bpfPinPath) k = (Inr coll, k1)"
    "coll ''tc_ingress_blocker'' = Some prog" "filter_on k' (of_int ifindex) = Some prog" "pins k' = pins k1"
    "LoadPinnedMap L bpfPinPath k' = Inr m"
  have new: "NewCollection L ?spec (Dir bpfPinPath) k = (Inr coll, k1)" using s(1) pin by (simp add: stat)
  have "m = i" using new_keeps_pins [OF new pin] s(4,5) open_pin [of k' bpfPinPath i] by simp
  moreover obtain j where "pr_Maps prog ''blocked_ips'' = Some j" "j \<notin> existing k"
    using new_private [OF new, of "respec ms"] s(2) by (auto simp: respec_def)
  ultimately show ?thesis using pinned_exist [OF pin] s(3) by auto
qed

text \<open>A start pins the object's map below its own directory and nothing elsewhere.\<close>

lemma start_pins_nothing_else:
  assumes run: "loadAndAttach L iface k = (Returns (Inr m), k')" and free: "pins k p = None"
    and obj: "LoadCollectionSpec L bpfObjPath = Inr spec" "dom (cs_Maps spec) = {''blocked_ips''}" and p: "p \<noteq> bpfPinPath"
  shows "pins k' p = None"
  using run
proof (rule loadAndAttach_Inr)
  fix spec' ms coll k1
  assume s: "LoadCollectionSpec L bpfObjPath = Inr spec'"
    "NewCollection L (if Stat L bpfPinPath k = None
        then spec'\<lparr> cs_Maps := (cs_Maps spec')(''blocked_ips'' \<mapsto> respec ms) \<rparr> else spec') (Dir bpfPinPath) k = (Inr coll, k1)"
    "pins k' = pins k1"
  have "\<not> (\<exists>name \<in> {''blocked_ips''}. p = Dir bpfPinPath @ ''/'' @ name)" using p Dir_pin by simp
  moreover have "dom (cs_Maps (if Stat L bpfPinPath k = None
        then spec'\<lparr> cs_Maps := (cs_Maps spec')(''blocked_ips'' \<mapsto> respec ms) \<rparr> else spec')) = {''blocked_ips''}"
    using obj s(1) by auto
  ultimately show ?thesis using new_pins_below [OF s(2) free] s(3) by (metis (no_types, lifting))
qed

end

subsection \<open>A small kernel\<close>

record kern =
  kn_pins :: "(string \<times> nat) list"
  kn_next :: nat
  kn_filters :: "uint32 \<Rightarrow> Program option"

definition kn_existing :: "kern \<Rightarrow> nat set" where
  "kn_existing k = set (map snd (kn_pins k)) \<union> {..<kn_next k}"

definition kn_fresh :: "kern \<Rightarrow> nat" where
  "kn_fresh k = Suc (foldr max (map snd (kn_pins k)) (kn_next k))"

text \<open>The object \<^verbatim>\<open>tc_blocker.o\<close>, from the map definition and the section of \<^verbatim>\<open>tc_blocker.c\<close>.\<close>

definition tc_object :: CollectionSpec where
  "tc_object = \<lparr> cs_Maps = [''blocked_ips'' \<mapsto>
       \<lparr> ms_Name = ''blocked_ips'', ms_Type = LRUHash, ms_KeySize = 4, ms_ValueSize = 8,
         ms_MaxEntries = 100000, ms_Pinning = PinByName \<rparr>],
     cs_Programs = [''tc_ingress_blocker''] \<rparr>"

definition programs_on :: "CollectionSpec \<Rightarrow> nat \<Rightarrow> string \<Rightarrow> Program option" where
  "programs_on spec i pn =
     (if pn \<in> set (cs_Programs spec) then Some \<lparr> pr_Name = pn, pr_Maps = [''blocked_ips'' \<mapsto> i] \<rparr> else None)"

definition kn_NewCollection ::
    "CollectionSpec \<Rightarrow> string \<Rightarrow> kern \<Rightarrow> (string + (string \<rightharpoonup> Program)) \<times> kern" where
  "kn_NewCollection spec dir k =
     (let path = dir @ ''/blocked_ips''; f = kn_fresh k
      in case cs_Maps spec ''blocked_ips'' of
           None \<Rightarrow> (Inl ''missing map'', k)
         | Some ms \<Rightarrow>
             if ms_Pinning ms = PinNone then (Inr (programs_on spec f), k\<lparr> kn_next := Suc f \<rparr>)
             else (case map_of (kn_pins k) path of
                     Some i \<Rightarrow> (Inr (programs_on spec i), k)
                   | None \<Rightarrow> (Inr (programs_on spec f), k\<lparr> kn_pins := (path, f) # kn_pins k, kn_next := Suc f \<rparr>)))"

definition small_kernel :: "kern kernel" where
  "small_kernel =
     \<lparr> LoadCollectionSpec = (\<lambda>p. Inr tc_object),
       Stat = (\<lambda>p k. if map_of (kn_pins k) p = None then Some ''no such file'' else None),
       LoadPinnedMap = (\<lambda>p k. case map_of (kn_pins k) p of None \<Rightarrow> Inl ''no such file'' | Some i \<Rightarrow> Inr i),
       NewCollection = kn_NewCollection,
       InterfaceByName = (\<lambda>n k. Inr 2),
       tc_Open = (\<lambda>k. None),
       Qdisc_Add = (\<lambda>obj k. (Some ''file exists'', k)),
       Filter_Replace = (\<lambda>obj k. (None, k\<lparr> kn_filters := (kn_filters k)(tc_Ifindex obj := map_option fst (tc_BPF obj)) \<rparr>)),
       BuildHandle = (\<lambda>maj mn. push_bit 16 maj OR mn),
       RemoveMemlock = (\<lambda>k. None) \<rparr>"

definition boot :: kern where
  "boot = \<lparr> kn_pins = [], kn_next = 0, kn_filters = Map.empty \<rparr>"

lemma foldr_max_ge: "x \<in> set xs \<union> {z} \<Longrightarrow> x \<le> foldr max xs (z :: nat)"
  by (induction xs) auto

lemma kn_fresh_new: "kn_fresh k \<notin> kn_existing k"
proof
  assume "kn_fresh k \<in> kn_existing k"
  then consider "kn_fresh k \<in> set (map snd (kn_pins k))" | "kn_fresh k < kn_next k"
    by (auto simp: kn_existing_def)
  then show False
    using foldr_max_ge [of "kn_fresh k" "map snd (kn_pins k)" "kn_next k"]
      foldr_max_ge [of "kn_next k" "map snd (kn_pins k)" "kn_next k"]
    by cases (simp_all add: kn_fresh_def)
qed

interpretation small: bpf_loading small_kernel "\<lambda>k. map_of (kn_pins k)" kn_existing kn_filters
proof (unfold_locales, goal_cases)
  case (4 k p i)
  then show ?case by (auto simp: kn_existing_def dest: map_of_SomeD intro!: image_eqI [of i snd "(p, i)"])
next
  case (6 spec dir k coll k' ms pn prog)
  then show ?case using kn_fresh_new [of k]
    by (auto simp: small_kernel_def kn_NewCollection_def programs_on_def Let_def split: if_splits)
qed (auto simp: small_kernel_def kn_NewCollection_def programs_on_def Let_def split: option.splits if_splits)

subsection \<open>Properties\<close>

lemma loader_main_Serving:
  "loader_main L env k = (Serving iface m, k') \<Longrightarrow> loadAndAttach L iface k = (Returns (Inr m), k')"
  by (auto simp: loader_main_def Let_def split: option.splits prod.splits outcome.splits sum.splits)

lemma boot_Serving:
  "\<exists>k'. loader_main small_kernel Map.empty boot = (Serving ''eth0'' 1, k') \<and> map_of (kn_pins k') bpfPinPath = Some 1"
proof -
  have e: "isEexist (Some ''file exists'') = Returns True" by code_simp
  show ?thesis
    using Dir_pin
    by (simp add: loader_main_def loadAndAttach_def small_kernel_def boot_def tc_object_def kn_NewCollection_def
        programs_on_def kn_fresh_def ensureClsactQdisc_def e loader_getEnv_def Getenv_def defaultInterface_def)
qed

text \<open>
  On a first start (nothing pinned yet, an object whose map is pinned by name), a loader that
  comes up serves the very map that the filter it attached reads, and that map is pinned.
\<close>

lemma first_start_shares_map:
  assumes "bpf_loading L pins existing filter_on" "loader_main L env k = (Serving iface m, k')" "pins k bpfPinPath = None"
    and "LoadCollectionSpec L bpfObjPath = Inr spec" "cs_Maps spec ''blocked_ips'' = Some ms"
      "ms_Pinning ms = PinByName" "ms_Name ms = ''blocked_ips''"
  shows "\<exists>i prog. filter_on k' i = Some prog \<and> pr_Maps prog ''blocked_ips'' = Some m \<and> pins k' bpfPinPath = Some m"
  by (rule bpf_loading.first_start_shares [OF assms(1) loader_main_Serving [OF assms(2)] assms(3-7)])

text \<open>
  C37. On a restart over an existing pin, a loader that comes up serves the old pinned map while the
  filter it attached reads another, new map: the respecified map has lost its pinning, so blocks
  made before or after the restart do not reach the filter.
\<close>

theorem reload_splits_map:
  assumes "bpf_loading L pins existing filter_on" "loader_main L env k = (Serving iface m, k')" "pins k bpfPinPath = Some i"
  shows "m = i \<and> (\<exists>ix prog j. filter_on k' ix = Some prog \<and> pr_Maps prog ''blocked_ips'' = Some j \<and> j \<noteq> m)"
  by (rule bpf_loading.reload_splits [OF assms(1) loader_main_Serving [OF assms(2)] assms(3)])

definition rebooted :: kern where
  "rebooted = \<lparr> kn_pins = [(bpfPinPath, 1)], kn_next = 2, kn_filters = Map.empty \<rparr>"

lemma rebooted_Serving: "\<exists>k'. loader_main small_kernel Map.empty rebooted = (Serving ''eth0'' 1, k')"
proof -
  have e: "isEexist (Some ''file exists'') = Returns True" by code_simp
  show ?thesis
    by (simp add: loader_main_def loadAndAttach_def small_kernel_def rebooted_def tc_object_def kn_NewCollection_def respec_def
        programs_on_def kn_fresh_def ensureClsactQdisc_def e loader_getEnv_def Getenv_def defaultInterface_def)
qed

theorem reload_splits_map_witness:
  "\<exists>k' ix prog j. loader_main small_kernel Map.empty rebooted = (Serving ''eth0'' 1, k') \<and>
     kn_filters k' ix = Some prog \<and> pr_Maps prog ''blocked_ips'' = Some j \<and> j \<noteq> 1"
proof -
  obtain k' where k': "loader_main small_kernel Map.empty rebooted = (Serving ''eth0'' 1, k')" using rebooted_Serving by blast
  then show ?thesis
    using reload_splits_map [OF small.bpf_loading_axioms k', of 1] by (auto simp: rebooted_def)
qed

end
