(* ===== verification/Sidecar.thy ===== *)
theory Sidecar
  imports Proto JsonText
begin

text \<open>
  \<^verbatim>\<open>ml-sidecar\<close>: the scoring service. \<^verbatim>\<open>scorer.py\<close> mixes an isolation-forest score and an LSTM score,
  \<^verbatim>\<open>models/isolation_forest.py\<close> and \<^verbatim>\<open>models/lstm_model.py\<close> compute them with models from Redis or from disk,
  \<^verbatim>\<open>server.py\<close> serves the result. Python's floats are \<^verbatim>\<open>float64\<close>; an exception is \<open>Inl\<close>. The learned models,
  the Redis client and \<^verbatim>\<open>json\<close> are parameters.
\<close>

subsection \<open>Arithmetic\<close>

fun mul64 :: "gofloat \<Rightarrow> gofloat \<Rightarrow> gofloat" where
  "mul64 (Fin x) (Fin y) = f64_of_rat (x * y)"
| "mul64 NaN b = NaN"
| "mul64 a NaN = NaN"
| "mul64 a b = (if a = Fin 0 \<or> b = Fin 0 then NaN else Inf (f_neg a \<noteq> f_neg b))"

text \<open>\<^verbatim>\<open>np.clip(x, 0.0, 1.0)\<close>, which hands on what is not a number.\<close>

fun clip01 :: "gofloat \<Rightarrow> gofloat" where
  "clip01 NaN = NaN"
| "clip01 (Inf s) = (if s then Fin 0 else Fin 1)"
| "clip01 (Fin x) = Fin (min 1 (max 0 x))"

subsection \<open>Features\<close>

text \<open>\<^verbatim>\<open>len\<close> of a Python string: its code points.\<close>

definition py_len :: "string \<Rightarrow> nat" where
  "py_len s = length (filter (\<lambda>c. \<not> in_range 0x80 0xBF c) s)"

definition fv_to_array :: "FeatureVector \<Rightarrow> gofloat list" where
  "fv_to_array fv =
     [ReqRate_1S fv, ReqRate_10S fv, ReqRate_60S fv, f64_of_int (sint (ContentLength fv)),
      f64_of_int (sint (HeaderCount fv)), f64_of_int (sint (IsHttp2 fv)), f64_of_int (int (py_len (HttpMethod fv))),
      f64_of_int (int (py_len (Ja3Hash fv))), f64_of_int (int (py_len (UserAgentHash fv)))]"

definition ip_to_subnet :: "string \<Rightarrow> string" where
  "ip_to_subnet ip =
     (let parts = Split (CHR ''.'') ip
      in if length parts = 4 then Join (CHR ''.'') (take 3 parts)
         else let parts6 = Split (CHR '':'') ip
              in if 3 \<le> length parts6 then Join (CHR '':'') (take 3 parts6) else ip)"

subsection \<open>What the sidecar is given\<close>

record ('s, 'mdl) sidecar =
  py_get :: "'s \<Rightarrow> string \<Rightarrow> string + string option"  \<comment> \<open>an exception, or the value if there is one\<close>
  py_setex :: "'s \<Rightarrow> string \<Rightarrow> int \<Rightarrow> string \<Rightarrow> string + 's"
  json_loads :: "string \<Rightarrow> string + gofloat list list"
  json_dumps :: "gofloat list list \<Rightarrow> string"
  joblib_load :: "string \<Rightarrow> 'mdl option"  \<comment> \<open>\<open>None\<close>: it raised, and the exception was logged\<close>
  joblib_dump :: "'mdl \<Rightarrow> string"
  forest_fit :: "nat \<Rightarrow> gofloat list list \<Rightarrow> string + 'mdl"  \<comment> \<open>\<^verbatim>\<open>IsolationForest(n_estimators, ...).fit(X)\<close>\<close>
  decision_function :: "'mdl \<Rightarrow> gofloat list \<Rightarrow> string + gofloat"
  baseline :: "'mdl option"
  session_run :: "(gofloat list list \<Rightarrow> string + gofloat) option"  \<comment> \<open>\<open>None\<close>: no ONNX file\<close>
  model_version :: string

subsection \<open>\<^verbatim>\<open>isolation_forest.py\<close>\<close>

definition iso_load :: "('s, 'mdl) sidecar \<Rightarrow> string \<Rightarrow> 's \<Rightarrow> string + 'mdl option" where
  "iso_load P ip s =
     (case py_get P s (''model:iso:'' @ ip) of
        Inl e \<Rightarrow> Inl e
      | Inr None \<Rightarrow> Inr None
      | Inr (Some data) \<Rightarrow> Inr (joblib_load P data))"

definition iso_score :: "('s, 'mdl) sidecar \<Rightarrow> string \<Rightarrow> FeatureVector \<Rightarrow> 's \<Rightarrow> string + gofloat" where
  "iso_score P ip fv s =
     (case iso_load P ip s of
        Inl e \<Rightarrow> Inl e
      | Inr own \<Rightarrow>
          (case (if own = None then baseline P else own) of
             None \<Rightarrow> Inr (Fin (1 / 2))
           | Some mdl \<Rightarrow>
               (case decision_function P mdl (fv_to_array fv) of
                  Inl e \<Rightarrow> Inl e
                | Inr raw \<Rightarrow> Inr (clip01 (add64 (Fin (1 / 2)) (f_minus raw))))))"

definition MIN_SAMPLES_FOR_FIT :: nat where "MIN_SAMPLES_FOR_FIT = 20"

definition iso_store :: "('s, 'mdl) sidecar \<Rightarrow> string \<Rightarrow> 'mdl \<Rightarrow> 's \<Rightarrow> string + 's" where
  "iso_store P ip mdl s = py_setex P s (''model:iso:'' @ ip) (7 * 24 * 3600) (joblib_dump P mdl)"

text \<open>Encoding a history stops at the first vector that cannot be encoded.\<close>

fun encode_all :: "('v \<Rightarrow> string + 'r) \<Rightarrow> 'v list \<Rightarrow> string + 'r list" where
  "encode_all encode [] = Inr []"
| "encode_all encode (v # vs) =
     (case encode v of
        Inl e \<Rightarrow> Inl e
      | Inr row \<Rightarrow> (case encode_all encode vs of Inl e \<Rightarrow> Inl e | Inr rows \<Rightarrow> Inr (row # rows)))"

definition iso_fit :: "('s, 'mdl) sidecar \<Rightarrow> ('v \<Rightarrow> string + gofloat list) \<Rightarrow> string \<Rightarrow> 'v list \<Rightarrow> 's \<Rightarrow> string + 's" where
  "iso_fit P encode ip feature_history s =
     (if length feature_history < MIN_SAMPLES_FOR_FIT then Inr s
      else (case encode_all encode feature_history of
              Inl e \<Rightarrow> Inl e
            | Inr rows \<Rightarrow> (case forest_fit P 100 rows of Inl e \<Rightarrow> Inl e | Inr mdl \<Rightarrow> iso_store P ip mdl s)))"

subsection \<open>\<^verbatim>\<open>lstm_model.py\<close>\<close>

definition MAX_SEQ_LEN :: nat where "MAX_SEQ_LEN = 20"
definition FEATURE_DIM :: nat where "FEATURE_DIM = 9"

definition last_n :: "nat \<Rightarrow> 'a list \<Rightarrow> 'a list" where
  "last_n n xs = drop (length xs - n) xs"

definition seq_key :: "string \<Rightarrow> string" where
  "seq_key ip = ''seq:'' @ ip_to_subnet ip"

definition push_feature_vector :: "('s, 'mdl) sidecar \<Rightarrow> string \<Rightarrow> FeatureVector \<Rightarrow> 's \<Rightarrow> string + 's" where
  "push_feature_vector P ip fv s =
     (case py_get P s (seq_key ip) of
        Inl e \<Rightarrow> Inl e
      | Inr raw \<Rightarrow>
          (case (case raw of None \<Rightarrow> Inr [] | Some text \<Rightarrow> if text = [] then Inr [] else json_loads P text) of
             Inl e \<Rightarrow> Inl e
           | Inr seq \<Rightarrow> py_setex P s (seq_key ip) 3600 (json_dumps P (last_n MAX_SEQ_LEN (seq @ [fv_to_array fv])))))"

text \<open>A row longer than the feature dimension is cut, a shorter one padded with zeros, as is the sequence.\<close>

definition prepare_row :: "gofloat list \<Rightarrow> gofloat list" where
  "prepare_row vec = map float32 (take FEATURE_DIM vec) @ replicate (FEATURE_DIM - length vec) (Fin 0)"

definition prepare_input :: "gofloat list list \<Rightarrow> gofloat list list" where
  "prepare_input seq =
     (let usable = last_n MAX_SEQ_LEN seq
      in map prepare_row usable @ replicate (MAX_SEQ_LEN - length usable) (replicate FEATURE_DIM (Fin 0)))"

definition lstm_score :: "('s, 'mdl) sidecar \<Rightarrow> string \<Rightarrow> 's \<Rightarrow> string + gofloat" where
  "lstm_score P ip s =
     (case session_run P of
        None \<Rightarrow> Inr (Fin (1 / 2))
      | Some session \<Rightarrow>
          (case py_get P s (seq_key ip) of
             Inl e \<Rightarrow> Inl e
           | Inr raw \<Rightarrow>
               (case raw of
                  None \<Rightarrow> Inr (Fin (1 / 2))
                | Some text \<Rightarrow>
                    if text = [] then Inr (Fin (1 / 2))
                    else (case json_loads P text of
                            Inl e \<Rightarrow> Inl e
                          | Inr seq \<Rightarrow>
                              if seq = [] then Inr (Fin (1 / 2))
                              else (case session (prepare_input seq) of
                                      Inl e \<Rightarrow> Inr (Fin (1 / 2))
                                    | Inr out \<Rightarrow> Inr (clip01 out))))))"

definition score_sequence :: "('s, 'mdl) sidecar \<Rightarrow> FeatureVector list \<Rightarrow> gofloat" where
  "score_sequence P subnet_sequence =
     (case session_run P of
        None \<Rightarrow> Fin (1 / 2)
      | Some session \<Rightarrow>
          (case session (prepare_input (map fv_to_array subnet_sequence)) of Inl e \<Rightarrow> Fin (1 / 2) | Inr out \<Rightarrow> clip01 out))"

subsection \<open>\<^verbatim>\<open>scorer.py\<close> and \<^verbatim>\<open>server.py\<close>\<close>

definition ISO_WEIGHT :: gofloat where "ISO_WEIGHT = f64_of_rat (6 / 10)"
definition LSTM_WEIGHT :: gofloat where "LSTM_WEIGHT = f64_of_rat (4 / 10)"

definition combine :: "gofloat \<Rightarrow> gofloat \<Rightarrow> gofloat" where
  "combine iso_s lstm_s = add64 (mul64 ISO_WEIGHT iso_s) (mul64 LSTM_WEIGHT lstm_s)"

definition scorer_score :: "('s, 'mdl) sidecar \<Rightarrow> FeatureVector \<Rightarrow> 's \<Rightarrow> (string + gofloat \<times> string) \<times> 's" where
  "scorer_score P fv s =
     (case push_feature_vector P (ClientIp fv) fv s of
        Inl e \<Rightarrow> (Inl e, s)
      | Inr s' \<Rightarrow>
          (case iso_score P (ClientIp fv) fv s' of
             Inl e \<Rightarrow> (Inl e, s')
           | Inr iso_s \<Rightarrow>
               (case lstm_score P (ClientIp fv) s' of
                  Inl e \<Rightarrow> (Inl e, s')
                | Inr lstm_s \<Rightarrow> (Inr (combine iso_s lstm_s, model_version P), s'))))"

text \<open>The response's score is a \<^verbatim>\<open>float32\<close>; an exception becomes a status the client sees as an error.\<close>

definition servicer_Score :: "('s, 'mdl) sidecar \<Rightarrow> FeatureVector \<Rightarrow> 's \<Rightarrow> (string + ScoreResponse) \<times> 's" where
  "servicer_Score P fv s =
     (case scorer_score P fv s of
        (Inl e, s') \<Rightarrow> (Inl e, s')
      | (Inr (score, ver), s') \<Rightarrow> (Inr \<lparr> AnomalyScore = float32 score, ModelVersion = ver \<rparr>, s'))"

subsection \<open>Scores\<close>

definition unit_score :: "gofloat \<Rightarrow> bool" where
  "unit_score f = (case f of Fin x \<Rightarrow> 0 \<le> x \<and> x \<le> 1 | _ \<Rightarrow> False)"

lemma unit_scoreE:
  assumes "unit_score f"
  obtains x where "f = Fin x" "0 \<le> x" "x \<le> 1"
  using assms by (cases f) (auto simp: unit_score_def)

lemma clip01_unit: "f \<noteq> NaN \<Longrightarrow> unit_score (clip01 f)"
  by (cases f) (auto simp: unit_score_def)

lemma rnd53_weights: "rnd 53 (- 1074) (6 / 10) = 5404319552844595 / 9007199254740992"
    "rnd 53 (- 1074) (4 / 10) = 3602879701896397 / 9007199254740992"
  by code_simp+

lemma weights: "ISO_WEIGHT = Fin (5404319552844595 / 9007199254740992)" "LSTM_WEIGHT = Fin (3602879701896397 / 9007199254740992)"
  unfolding ISO_WEIGHT_def LSTM_WEIGHT_def rnd53_weights [symmetric] by (rule f64_unit, simp)+

lemma rnd_unit: "0 \<le> x \<Longrightarrow> x \<le> 1 \<Longrightarrow> 0 \<le> rnd 53 (- 1074) x \<and> rnd 53 (- 1074) x \<le> 1"
  using rnd_nonneg [of x 53 "- 1074"] rnd_mono [of x 1 53 "- 1074"] rnd_of_int [of 1 53 "- 1074"] by simp

lemma mul64_weight:
  assumes "0 \<le> x" "x \<le> 1" "0 \<le> w" "w \<le> 1" "rnd 53 (- 1074) w = w"
  obtains y where "mul64 (Fin w) (Fin x) = Fin y" "0 \<le> y" "y \<le> w"
proof -
  have wx: "0 \<le> w * x" "w * x \<le> w" using assms by (auto simp: mult_left_le)
  then have "mul64 (Fin w) (Fin x) = Fin (rnd 53 (- 1074) (w * x))" using assms(4) by (simp add: f64_unit)
  moreover have "0 \<le> rnd 53 (- 1074) (w * x)" using wx(1) by (rule rnd_nonneg)
  moreover have "rnd 53 (- 1074) (w * x) \<le> w" using rnd_mono [OF wx(2), of 53 "- 1074"] assms(5) by simp
  ultimately show ?thesis by (rule that)
qed

text \<open>The rounded weights add up to one exactly, so the mixture of two unit scores is a unit score.\<close>

lemma combine_unit:
  assumes "unit_score a" "unit_score b"
  shows "unit_score (combine a b)"
proof -
  let ?v = "5404319552844595 / 9007199254740992 :: rat" and ?w = "3602879701896397 / 9007199254740992 :: rat"
  obtain x y where ab: "a = Fin x" "0 \<le> x" "x \<le> 1" "b = Fin y" "0 \<le> y" "y \<le> 1"
    using assms by (metis unit_scoreE)
  have r: "rnd 53 (- 1074) ?v = ?v" "rnd 53 (- 1074) ?w = ?w" by code_simp+
  obtain p where p: "mul64 (Fin ?v) (Fin x) = Fin p" "0 \<le> p" "p \<le> ?v" using ab r by (rule_tac mul64_weight [of x ?v]) auto
  obtain q where q: "mul64 (Fin ?w) (Fin y) = Fin q" "0 \<le> q" "q \<le> ?w" using ab r by (rule_tac mul64_weight [of y ?w]) auto
  have "p + q \<le> 1" using p(3) q(3) by simp
  then show ?thesis using rnd_unit [of "p + q"] p q
    by (simp add: combine_def weights ab unit_score_def f64_unit)
qed

lemma float_NaN [simp]: "add64 a NaN = NaN" "mul64 a NaN = NaN"
  by (cases a; simp)+

lemma combine_NaN: "a = NaN \<or> b = NaN \<Longrightarrow> combine a b = NaN"
  by (cases a) (auto simp: combine_def weights)

lemma f64_not_NaN [simp]: "f64_of_rat x \<noteq> NaN"
  by (simp add: f64_of_rat_def round_float_def Let_def)

lemma half_minus_not_NaN: "raw \<noteq> NaN \<Longrightarrow> add64 (Fin (1 / 2)) (f_minus raw) \<noteq> NaN"
  by (cases raw) auto

lemma float32_unit: "unit_score f \<Longrightarrow> unit_score (float32 f)"
proof (erule unit_scoreE)
  fix x assume x: "f = Fin x" "0 \<le> x" "x \<le> 1"
  have "\<bar>x\<bar> \<le> pow2 0" using x by (simp add: pow2_def)
  also have "pow2 0 \<le> pow2 127" by (simp only: pow2_le_iff)
  finally have "float32 f = Fin (rnd 24 (- 149) x)" by (simp add: x(1) f32_of_rat_small)
  then show "unit_score (float32 f)"
    using x rnd_nonneg [of x 24 "- 149"] rnd_mono [of x 1 24 "- 149"] rnd_of_int [of 1 24 "- 149"] by (simp add: unit_score_def)
qed

subsection \<open>The sequence store\<close>

text \<open>
  What the sidecar relies on of Redis and \<^verbatim>\<open>json\<close> while nothing expires: a value that was set is the value
  that is got, and a list of rows of floats survives being written and read.
\<close>

locale py_store =
  fixes P :: "('s, 'mdl) sidecar" and stored :: "'s \<Rightarrow> string \<Rightarrow> string option"
  assumes get: "py_get P s k = Inr (stored s k)"
    and setex: "0 < ttl \<Longrightarrow> \<exists>s'. py_setex P s k ttl v = Inr s' \<and> stored s' = (stored s)(k \<mapsto> v)"
    and loads: "json_loads P (json_dumps P seq) = Inr seq"
    and dumps: "json_dumps P seq \<noteq> []"

text \<open>The sequence held for a key: none yet, or the text of some rows.\<close>

definition holds_seq :: "('s, 'mdl) sidecar \<Rightarrow> ('s \<Rightarrow> string \<Rightarrow> string option) \<Rightarrow> 's \<Rightarrow> string \<Rightarrow> gofloat list list \<Rightarrow> bool" where
  "holds_seq P stored s k seq \<longleftrightarrow> (stored s k = None \<and> seq = [] \<or> stored s k = Some (json_dumps P seq))"

text \<open>The service after a series of calls.\<close>

definition score_all :: "('s, 'mdl) sidecar \<Rightarrow> FeatureVector list \<Rightarrow> 's \<Rightarrow> 's" where
  "score_all P fvs s = fold (\<lambda>fv s. snd (servicer_Score P fv s)) fvs s"

definition of_subnet :: "string \<Rightarrow> FeatureVector list \<Rightarrow> FeatureVector list" where
  "of_subnet ip = filter (\<lambda>fv. ip_to_subnet (ClientIp fv) = ip_to_subnet ip)"

lemma last_n_last_n: "last_n n (last_n n zs @ ys) = last_n n (zs @ ys)"
proof (cases "n \<le> length zs")
  case True
  then have "length zs + length ys - n = (length zs - n) + length ys" by simp
  with True show ?thesis by (simp add: last_n_def add.commute)
qed (simp add: last_n_def)

lemma last_n_snoc_app: "last_n n (last_n n (xs @ [x]) @ ys) = last_n n (xs @ x # ys)"
  using last_n_last_n [of n "xs @ [x]" ys] by simp

lemma length_last_n [simp]: "length (last_n n xs) = min n (length xs)"
  by (auto simp: last_n_def)

lemma prepare_input_shape:
  "length (prepare_input seq) = MAX_SEQ_LEN \<and> list_all (\<lambda>r. length r = FEATURE_DIM) (prepare_input seq)"
  by (auto simp: prepare_input_def prepare_row_def Let_def list_all_iff)

lemma prepare_input_last_n [simp]: "prepare_input (last_n MAX_SEQ_LEN seq) = prepare_input seq"
  using last_n_last_n [of MAX_SEQ_LEN seq "[]"] by (simp add: prepare_input_def)

lemma servicer_Score_state: "push_feature_vector P (ClientIp fv) fv s = Inr s' \<Longrightarrow> snd (servicer_Score P fv s) = s'"
  by (simp add: servicer_Score_def scorer_score_def split: sum.splits)

lemma servicer_Score_answer:
  assumes "push_feature_vector P (ClientIp fv) fv s = Inr s'" "lstm_score P (ClientIp fv) s' = Inr b"
  shows "fst (servicer_Score P fv s) =
     (case iso_score P (ClientIp fv) fv s' of
        Inl e \<Rightarrow> Inl e | Inr a \<Rightarrow> Inr \<lparr> AnomalyScore = float32 (combine a b), ModelVersion = model_version P \<rparr>)"
  using assms by (simp add: servicer_Score_def scorer_score_def split: sum.splits)

context py_store
begin

lemma push_seq:
  assumes "holds_seq P stored s (seq_key ip) seq"
  obtains s' where "push_feature_vector P ip fv s = Inr s'"
    "stored s' = (stored s)(seq_key ip \<mapsto> json_dumps P (last_n MAX_SEQ_LEN (seq @ [fv_to_array fv])))"
proof -
  obtain s' where "py_setex P s (seq_key ip) 3600 (json_dumps P (last_n MAX_SEQ_LEN (seq @ [fv_to_array fv]))) = Inr s'"
      "stored s' = (stored s)(seq_key ip \<mapsto> json_dumps P (last_n MAX_SEQ_LEN (seq @ [fv_to_array fv])))"
    using setex [of 3600] by fastforce
  then show ?thesis using that assms by (auto simp: push_feature_vector_def get holds_seq_def loads dumps)
qed

text \<open>Every call adds one row to its subnet's window and leaves the other windows and the models.\<close>

lemma score_step:
  assumes "\<And>ip. holds_seq P stored s (seq_key ip) (seqs (ip_to_subnet ip))"
  shows "holds_seq P stored (snd (servicer_Score P fv s)) (seq_key ip)
      ((seqs(ip_to_subnet (ClientIp fv) := last_n MAX_SEQ_LEN (seqs (ip_to_subnet (ClientIp fv)) @ [fv_to_array fv]))) (ip_to_subnet ip))"
    "stored (snd (servicer_Score P fv s)) (''model:iso:'' @ k) = stored s (''model:iso:'' @ k)"
proof -
  obtain s' where s': "push_feature_vector P (ClientIp fv) fv s = Inr s'"
      "stored s' = (stored s)(seq_key (ClientIp fv) \<mapsto>
         json_dumps P (last_n MAX_SEQ_LEN (seqs (ip_to_subnet (ClientIp fv)) @ [fv_to_array fv])))"
    by (rule push_seq [OF assms])
  note eq = servicer_Score_state [OF s'(1)]
  show "holds_seq P stored (snd (servicer_Score P fv s)) (seq_key ip)
      ((seqs(ip_to_subnet (ClientIp fv) := last_n MAX_SEQ_LEN (seqs (ip_to_subnet (ClientIp fv)) @ [fv_to_array fv]))) (ip_to_subnet ip))"
    using assms [of ip] s'(2) by (auto simp: eq holds_seq_def seq_key_def)
  show "stored (snd (servicer_Score P fv s)) (''model:iso:'' @ k) = stored s (''model:iso:'' @ k)"
    using s'(2) by (simp add: eq seq_key_def)
qed

lemma score_all_seq:
  assumes "\<And>ip. holds_seq P stored s (seq_key ip) (last_n MAX_SEQ_LEN (map fv_to_array (of_subnet ip old)))"
  shows "holds_seq P stored (score_all P fvs s) (seq_key ip) (last_n MAX_SEQ_LEN (map fv_to_array (of_subnet ip (old @ fvs)))) \<and>
     stored (score_all P fvs s) (''model:iso:'' @ k) = stored s (''model:iso:'' @ k)"
  using assms
proof (induction fvs arbitrary: s old)
  case (Cons fv fvs)
  let ?seqs = "\<lambda>n. last_n MAX_SEQ_LEN (map fv_to_array (filter (\<lambda>fv. ip_to_subnet (ClientIp fv) = n) old))"
  have "holds_seq P stored s (seq_key ip) (?seqs (ip_to_subnet ip))" for ip using Cons.prems by (simp add: of_subnet_def)
  note step = score_step [where seqs = ?seqs and fv = fv, OF this]
  have "holds_seq P stored (snd (servicer_Score P fv s)) (seq_key ip)
      (last_n MAX_SEQ_LEN (map fv_to_array (of_subnet ip (old @ [fv]))))" for ip
    using step(1) [of ip] by (auto simp: of_subnet_def last_n_last_n split: if_splits)
  from Cons.IH [OF this] show ?case using step(2) by (simp add: score_all_def)
qed (simp add: score_all_def)

text \<open>The online score is the explicit score of all the subnet's requests, the current one last.\<close>

lemma answer_after:
  assumes "\<And>ip. stored s (seq_key ip) = None"
  shows "fst (servicer_Score P fv (score_all P fvs s)) =
     (case iso_score P (ClientIp fv) fv s of
        Inl e \<Rightarrow> Inl e
      | Inr a \<Rightarrow> Inr \<lparr> AnomalyScore = float32 (combine a (score_sequence P (of_subnet (ClientIp fv) (fvs @ [fv])))),
                       ModelVersion = model_version P \<rparr>)"
proof -
  let ?t = "score_all P fvs s" and ?rows = "map fv_to_array (of_subnet (ClientIp fv) (fvs @ [fv]))"
  have e: "\<And>ip. holds_seq P stored s (seq_key ip) (last_n MAX_SEQ_LEN (map fv_to_array (of_subnet ip [])))"
    using assms by (simp add: holds_seq_def of_subnet_def last_n_def)
  have h: "holds_seq P stored ?t (seq_key (ClientIp fv)) (last_n MAX_SEQ_LEN (map fv_to_array (of_subnet (ClientIp fv) fvs)))"
    using score_all_seq [OF e, of fvs "ClientIp fv" "[]"] by simp
  obtain s' where s': "push_feature_vector P (ClientIp fv) fv ?t = Inr s'"
      "stored s' = (stored ?t)(seq_key (ClientIp fv) \<mapsto> json_dumps P (last_n MAX_SEQ_LEN ?rows))"
    by (rule push_seq [OF h, of fv]) (simp add: last_n_last_n of_subnet_def)
  have ne: "last_n MAX_SEQ_LEN ?rows \<noteq> []" by (simp add: last_n_def MAX_SEQ_LEN_def of_subnet_def)
  have l: "lstm_score P (ClientIp fv) s' = Inr (score_sequence P (of_subnet (ClientIp fv) (fvs @ [fv])))"
    using s'(2) ne by (simp add: lstm_score_def score_sequence_def get loads dumps del: map_append split: option.splits sum.splits)
  have "stored s' (''model:iso:'' @ ClientIp fv) = stored s (''model:iso:'' @ ClientIp fv)"
    using s'(2) score_all_seq [OF e, of fvs "ClientIp fv" "ClientIp fv"] by (simp add: seq_key_def)
  then have "iso_score P (ClientIp fv) fv s' = iso_score P (ClientIp fv) fv s" by (simp add: iso_score_def iso_load_def get)
  then show ?thesis using servicer_Score_answer [OF s'(1) l] by simp
qed

end

subsection \<open>A store that keeps what it is given\<close>

text \<open>
  Redis as a map of strings. Rows are written as JSON; a finite float as the array of its numerator
  and denominator, so that it is read back exactly.
\<close>

fun write_float :: "gofloat \<Rightarrow> jvalue" where
  "write_float (Fin x) = (case quotient_of x of (n, d) \<Rightarrow> VArr [VNum (show_int n), VNum (show_int d)])"
| "write_float (Inf b) = VBool b"
| "write_float NaN = VNull"

fun read_float :: "jvalue \<Rightarrow> gofloat" where
  "read_float (VArr [VNum n, VNum d]) =
     (case (readFloat n, readFloat d) of (Some x, Some y) \<Rightarrow> Fin (x / y) | _ \<Rightarrow> NaN)"
| "read_float (VBool b) = Inf b"
| "read_float v = NaN"

fun read_row :: "jvalue \<Rightarrow> gofloat list" where
  "read_row (VArr vs) = map read_float vs"
| "read_row v = []"

definition write_rows :: "gofloat list list \<Rightarrow> string" where
  "write_rows rows = print_value (VArr (map (\<lambda>row. VArr (map write_float row)) rows))"

definition read_rows :: "string \<Rightarrow> string + gofloat list list" where
  "read_rows text = (case parse_text text of Inr (VArr vs) \<Rightarrow> Inr (map read_row vs) | _ \<Rightarrow> Inl ''JSONDecodeError'')"

lemma read_write_float [simp]: "read_float (write_float f) = f"
proof (cases f)
  case (Fin x)
  obtain n d where q: "quotient_of x = (n, d)" by fastforce
  then show ?thesis using quotient_of_div [OF q] by (simp add: Fin readFloat_show_int)
qed auto

lemma write_float_json [simp]: "json_value (write_float f)" "nesting (write_float f) \<le> 1"
  by (cases f; simp split: prod.splits)+

lemma nesting_bound: "list_all (\<lambda>v. nesting v \<le> n) vs \<Longrightarrow> nesting (VArr vs) \<le> Suc n"
  by (induction vs) auto

lemma read_write_rows: "read_rows (write_rows rows) = Inr rows"
proof -
  let ?v = "VArr (map (\<lambda>row. VArr (map write_float row)) rows)"
  have "nesting (VArr (map write_float row)) \<le> 2" for row
    using nesting_bound [of 1 "map write_float row"] write_float_json(2)
    by (simp add: list_all_iff numeral_2_eq_2 del: nesting.simps One_nat_def)
  then have "nesting ?v \<le> 3" using nesting_bound [of 2] by (simp add: list_all_iff numeral_3_eq_3 numeral_2_eq_2 del: nesting.simps)
  then have "parse_text (write_rows rows) = Inr ?v"
    unfolding write_rows_def by (intro parse_print) (simp_all add: list_all_iff maxNestingDepth_def)
  then show ?thesis by (simp add: read_rows_def comp_def)
qed

lemma write_rows_ne: "write_rows rows \<noteq> []"
  by (simp add: write_rows_def)

text \<open>
  The forest is a parameter of this instance, and so is the trained session. A fitted model is its
  number of samples.
\<close>

definition map_sidecar ::
    "(nat \<Rightarrow> gofloat list \<Rightarrow> string + gofloat) \<Rightarrow> (gofloat list list \<Rightarrow> string + gofloat) option \<Rightarrow> (string \<Rightarrow> string option, nat) sidecar" where
  "map_sidecar forest session =
     \<lparr> py_get = \<lambda>s k. Inr (s k), py_setex = \<lambda>s k ttl v. if 0 < ttl then Inr (s(k \<mapsto> v)) else Inl ''ResponseError'',
       json_loads = read_rows, json_dumps = write_rows,
       joblib_load = \<lambda>text. map_option (\<lambda>x. nat \<lfloor>x\<rfloor>) (readFloat text),
       joblib_dump = show_nat, forest_fit = \<lambda>n rows. Inr (length rows),
       decision_function = forest, baseline = Some 0, session_run = session, model_version = ''1.0'' \<rparr>"

interpretation pm: py_store "map_sidecar forest session" "\<lambda>s. s"
  by unfold_locales (simp_all add: map_sidecar_def read_write_rows write_rows_ne)

subsection \<open>Properties\<close>


text \<open>A forest that finds everything slightly unusual and a session that looks at the second row of its input.\<close>

definition sample_sidecar :: "(string \<Rightarrow> string option, nat) sidecar" where
  "sample_sidecar = map_sidecar (\<lambda>mdl x. Inr (Fin (1 / 4))) (Some (\<lambda>w. Inr (hd (w ! 1))))"

definition quiet_features :: FeatureVector where
  "quiet_features = \<lparr> ClientIp = ''10.0.0.1'', Ja3Hash = [], UserAgentHash = [], ReqRate_1S = Fin 1, ReqRate_10S = Fin 0,
     ReqRate_60S = Fin 0, HttpMethod = [], UriHash = [], ContentLength = 0, HeaderCount = 0, IsHttp2 = 0, UnixTimestamp = 0 \<rparr>"

lemma sample_scores:
  "iso_score sample_sidecar ip fv Map.empty = Inr (Fin (1 / 4))"
  "score_sequence sample_sidecar [quiet_features] = Fin 0"
  "score_sequence sample_sidecar [quiet_features, quiet_features] = Fin 1"
proof -
  have "rnd 53 (- 1074) (1 / 4) = 1 / 4" by code_simp
  then show "iso_score sample_sidecar ip fv Map.empty = Inr (Fin (1 / 4))"
    by (simp add: iso_score_def iso_load_def sample_sidecar_def map_sidecar_def f64_unit)
  have "rnd 24 (- 149) 1 = 1" using rnd_of_int [of 1 24 "- 149"] by simp
  then have "f32_of_rat 1 = Fin 1" using one_le_pow2 [of 127] by (simp add: f32_of_rat_small)
  then show "score_sequence sample_sidecar [quiet_features] = Fin 0"
    "score_sequence sample_sidecar [quiet_features, quiet_features] = Fin 1"
    by (simp_all add: score_sequence_def sample_sidecar_def map_sidecar_def prepare_input_def prepare_row_def
        MAX_SEQ_LEN_def FEATURE_DIM_def last_n_def fv_to_array_def quiet_features_def nth_append)
qed

lemma sample_sidecar_ok: "py_store sample_sidecar (\<lambda>s. s)"
  unfolding sample_sidecar_def by (rule pm.py_store_axioms)

lemma sample_subnet:
  "ClientIp quiet_features = ''10.0.0.1''" "of_subnet ''10.0.0.1'' [] = []"
  "of_subnet ''10.0.0.1'' (quiet_features # fvs) = quiet_features # of_subnet ''10.0.0.1'' fvs"
  by (simp_all add: of_subnet_def quiet_features_def)

lemma sample_version: "model_version sample_sidecar = ''1.0''"
  by (simp add: sample_sidecar_def map_sidecar_def)


text \<open>
  Every score the sidecar answers lies between 0 and 1, as a \<^verbatim>\<open>float32\<close>, as long as the models give
  numbers: whatever is stored in Redis, and when models are missing or fail.
\<close>

lemma anomaly_range:
  assumes "\<And>mdl x. decision_function P mdl x \<noteq> Inr NaN"
    and "\<And>session w. session_run P = Some session \<Longrightarrow> session w \<noteq> Inr NaN"
    and "fst (servicer_Score P fv s) = Inr resp"
  shows "unit_score (AnomalyScore resp)"
proof -
  have half: "unit_score (Fin (1 / 2))" by (simp add: unit_score_def)
  obtain s' a b where ab: "iso_score P (ClientIp fv) fv s' = Inr a" "lstm_score P (ClientIp fv) s' = Inr b"
      "AnomalyScore resp = float32 (combine a b)"
    using assms(3) by (auto simp: servicer_Score_def scorer_score_def split: sum.splits prod.splits)
  have "unit_score a"
    using ab(1) assms(1) half
    by (auto simp: iso_score_def intro!: clip01_unit half_minus_not_NaN split: sum.splits option.splits)
  moreover have "unit_score b"
    using ab(2) assms(2) half
    by (auto simp: lstm_score_def intro!: clip01_unit split: sum.splits option.splits if_splits)
  ultimately show ?thesis unfolding ab(3) by (intro float32_unit combine_unit)
qed

lemma sample_numbers:
  "decision_function sample_sidecar mdl x \<noteq> Inr NaN"
  "session_run (sample_sidecar\<lparr> session_run := None \<rparr>) = None"
  by (simp_all add: sample_sidecar_def map_sidecar_def)

end
