(* ===== verification/SidecarStart.thy ===== *)
theory SidecarStart
  imports Sidecar Json
begin

text \<open>
  The start of the sidecar: the two models are looked for on disk, beside the Python modules, and a missing or
  unreadable file leaves the model out. \<^verbatim>\<open>create_and_save_baseline\<close> writes the fallback forest when the image is built.
  The file system, \<^verbatim>\<open>joblib\<close> and the ONNX runtime are parameters.
\<close>

record ('d, 'mdl) py_disk =
  pd_exists :: "'d \<Rightarrow> string \<Rightarrow> bool"
  pd_load :: "'d \<Rightarrow> string \<Rightarrow> string + 'mdl"  \<comment> \<open>\<^verbatim>\<open>joblib.load(path)\<close>\<close>
  pd_mkdir :: "'d \<Rightarrow> string \<Rightarrow> string + 'd"
  pd_dump :: "'d \<Rightarrow> string \<Rightarrow> 'mdl \<Rightarrow> string + 'd"
  pd_session :: "'d \<Rightarrow> string \<Rightarrow> string + (gofloat list list \<Rightarrow> string + gofloat)"  \<comment> \<open>\<^verbatim>\<open>ort.InferenceSession(path, ...)\<close>\<close>

text \<open>\<open>here\<close> is the directory of the modules.\<close>

definition BASELINE_PATH :: "string \<Rightarrow> string" where "BASELINE_PATH here = here @ ''/baseline_iso.pkl''"

definition ONNX_PATH :: "string \<Rightarrow> string" where "ONNX_PATH here = here @ ''/lstm.onnx''"

definition load_baseline :: "('d, 'mdl) py_disk \<Rightarrow> string \<Rightarrow> 'd \<Rightarrow> 'mdl option" where
  "load_baseline K here d =
     (if \<not> pd_exists K d (BASELINE_PATH here) then None
      else (case pd_load K d (BASELINE_PATH here) of Inl e \<Rightarrow> None | Inr mdl \<Rightarrow> Some mdl))"

definition load_session :: "('d, 'mdl) py_disk \<Rightarrow> string \<Rightarrow> 'd \<Rightarrow> (gofloat list list \<Rightarrow> string + gofloat) option" where
  "load_session K here d =
     (if \<not> pd_exists K d (ONNX_PATH here) then None
      else (case pd_session K d (ONNX_PATH here) of Inl e \<Rightarrow> None | Inr session \<Rightarrow> Some session))"

text \<open>\<^verbatim>\<open>path.parent\<close>, for a path as pathlib prints it.\<close>

definition py_parent :: "string \<Rightarrow> string" where
  "py_parent path = (case dropWhile (\<lambda>c. c \<noteq> CHR ''/'') (rev path) of [] \<Rightarrow> ''.'' | [c] \<Rightarrow> ''/'' | c # q \<Rightarrow> rev q)"

text \<open>\<open>X\<close> is what numpy's generator draws: 500 rows of standard normal numbers.\<close>

definition create_and_save_baseline ::
    "('d, 'mdl) py_disk \<Rightarrow> ('s, 'mdl) sidecar \<Rightarrow> gofloat list list \<Rightarrow> string \<Rightarrow> string option \<Rightarrow> 'd \<Rightarrow> string + 'd" where
  "create_and_save_baseline K P X here output_path d =
     (case forest_fit P 100 X of
        Inl e \<Rightarrow> Inl e
      | Inr mdl \<Rightarrow>
          (let path = (case output_path of Some p \<Rightarrow> p | None \<Rightarrow> BASELINE_PATH here)
           in case pd_mkdir K d (py_parent path) of Inl e \<Rightarrow> Inl e | Inr d' \<Rightarrow> pd_dump K d' path mdl))"

text \<open>The version is the package's, or one made of the time when the package is not installed.\<close>

definition resolve_version :: "string option \<Rightarrow> int \<Rightarrow> string" where
  "resolve_version installed tm = (case installed of Some v \<Rightarrow> v | None \<Rightarrow> ''dev-'' @ show_int tm)"

text \<open>\<^verbatim>\<open>Scorer(redis_client)\<close>: the service with the models found on disk. The rest of \<open>P\<close> is the Redis client and the libraries.\<close>

definition new_Scorer :: "('d, 'mdl) py_disk \<Rightarrow> string \<Rightarrow> string option \<Rightarrow> int \<Rightarrow> 'd \<Rightarrow> ('s, 'mdl) sidecar \<Rightarrow> ('s, 'mdl) sidecar" where
  "new_Scorer K here installed tm d P =
     P\<lparr> baseline := load_baseline K here d, session_run := load_session K here d, model_version := resolve_version installed tm \<rparr>"

definition health_handler :: "(gofloat \<Rightarrow> string) \<Rightarrow> gofloat \<Rightarrow> jvalue" where
  "health_handler show_rounded uptime = VObj [(''status'', VStr ''ok''), (''uptime_seconds'', VNum (show_rounded uptime))]"

subsection \<open>The fallback forest\<close>

text \<open>What the service relies on of \<^verbatim>\<open>joblib\<close> and the file system: what was written is there, and is what is read.\<close>

locale model_disk =
  fixes K :: "('d, 'mdl) py_disk"
  assumes dumped: "pd_dump K d p mdl = Inr d' \<Longrightarrow> pd_exists K d' p \<and> pd_load K d' p = Inr mdl"
begin

lemma built_baseline:
  assumes "create_and_save_baseline K P X here None d = Inr d'"
  shows "\<exists>mdl. forest_fit P 100 X = Inr mdl \<and> load_baseline K here d' = Some mdl"
  using assms dumped by (auto simp: create_and_save_baseline_def load_baseline_def Let_def split: sum.splits)

end

text \<open>A disk of named models.\<close>

definition model_shelf :: "((string \<rightharpoonup> nat), nat) py_disk" where
  "model_shelf = \<lparr> pd_exists = \<lambda>d p. d p \<noteq> None, pd_load = \<lambda>d p. case d p of None \<Rightarrow> Inl ''FileNotFoundError'' | Some mdl \<Rightarrow> Inr mdl,
     pd_mkdir = \<lambda>d p. Inr d, pd_dump = \<lambda>d p mdl. Inr (d(p \<mapsto> mdl)), pd_session = \<lambda>d p. Inl ''NoSuchFile'' \<rparr>"

interpretation shelf: model_disk model_shelf
  by unfold_locales (auto simp: model_shelf_def)

subsection \<open>Without a sequence model\<close>

text \<open>Half a point for the sequence bounds the mixture: 0.6 + 0.4 / 2 is below 0.81.\<close>

lemma combine_half:
  assumes "unit_score a"
  obtains z where "combine a (Fin (1 / 2)) = Fin z" "0 \<le> z" "z \<le> rnd 53 (- 1074) (81 / 100)"
proof -
  let ?v = "5404319552844595 / 9007199254740992 :: rat" and ?w = "3602879701896397 / 9007199254740992 :: rat"
  obtain x where a: "a = Fin x" "0 \<le> x" "x \<le> 1" using assms by (rule unit_scoreE)
  have r: "rnd 53 (- 1074) ?v = ?v" "rnd 53 (- 1074) (?w * (1 / 2)) = ?w / 2" by code_simp+
  obtain p where p: "mul64 (Fin ?v) (Fin x) = Fin p" "0 \<le> p" "p \<le> ?v" using a r by (rule_tac mul64_weight [of x ?v]) auto
  have q: "mul64 (Fin ?w) (Fin (1 / 2)) = Fin (?w / 2)" using r(2) by (simp add: f64_unit)
  have s: "0 \<le> p + ?w / 2" "p + ?w / 2 \<le> 81 / 100" using p by simp_all
  then have "combine a (Fin (1 / 2)) = Fin (rnd 53 (- 1074) (p + ?w / 2))"
    unfolding combine_def weights a(1) p(1) q add64.simps by (intro f64_unit) simp
  moreover have "0 \<le> rnd 53 (- 1074) (p + ?w / 2)" using s(1) by (rule rnd_nonneg)
  moreover have "rnd 53 (- 1074) (p + ?w / 2) \<le> rnd 53 (- 1074) (81 / 100)" using s(2) by (rule rnd_mono) simp
  ultimately show ?thesis by (rule that)
qed

lemma clip01_NaN_or_unit: "clip01 f = NaN \<or> unit_score (clip01 f)"
  using clip01_unit [of f] by (cases "f = NaN") simp_all

lemma iso_score_unit:
  assumes "iso_score P ip fv s = Inr a"
  shows "a = NaN \<or> unit_score a"
proof -
  have "a = Fin (1 / 2) \<or> (\<exists>f. a = clip01 f)"
    using assms by (auto simp: iso_score_def split: sum.splits option.splits if_splits)
  then show ?thesis using clip01_NaN_or_unit by (auto simp: unit_score_def)
qed

text \<open>The score a service without a sequence model answers stays below 0.85.\<close>

lemma no_session_score:
  assumes "session_run P = None" "fst (servicer_Score P fv s) = Inr resp"
  shows "\<not> f_gt (AnomalyScore resp) (Fin (14260634 / 16777216))"
proof -
  obtain s' a where a: "iso_score P (ClientIp fv) fv s' = Inr a" "AnomalyScore resp = float32 (combine a (Fin (1 / 2)))"
    using assms by (auto simp: servicer_Score_def scorer_score_def lstm_score_def split: sum.splits prod.splits)
  show ?thesis
  proof (cases "a = NaN")
    case True
    then show ?thesis by (simp add: a(2) combine_NaN)
  next
    case False
    then have "unit_score a" using iso_score_unit [OF a(1)] by blast
    then obtain z where z: "combine a (Fin (1 / 2)) = Fin z" "0 \<le> z" "z \<le> rnd 53 (- 1074) (81 / 100)" by (rule combine_half)
    have "rnd 53 (- 1074) (81 / 100) \<le> (1 :: rat)" by code_simp
    then have "\<bar>z\<bar> \<le> 1" using z by simp
    then have "float32 (combine a (Fin (1 / 2))) = Fin (rnd 24 (- 149) z)" using one_le_pow2 [of 127] by (simp add: z(1) f32_of_rat_small)
    moreover have "rnd 24 (- 149) z \<le> rnd 24 (- 149) (rnd 53 (- 1074) (81 / 100))" using z(3) by (rule rnd_mono) simp
    moreover have "rnd 24 (- 149) (rnd 53 (- 1074) (81 / 100)) \<le> (14260634 / 16777216 :: rat)" by code_simp
    ultimately show ?thesis by (simp add: a(2) f_gt_def)
  qed
qed

end
