(* ===== verification/Retrain.thy ===== *)
theory Retrain
  imports Sidecar Engine
begin

text \<open>
  \<^verbatim>\<open>ml-sidecar/training/retrain.py\<close>: the nightly job that reads the decisions topic, groups the events by
  client and fits the isolation forests. A message is its timestamp and what \<^verbatim>\<open>json.loads\<close> made of its
  value, \<open>Inl\<close> if that raised. Python's \<^verbatim>\<open>float\<close> of a string and the text of a key that is not a string
  are parameters.
\<close>

fun py_truthy :: "jvalue \<Rightarrow> bool" where
  "py_truthy VNull = False"
| "py_truthy (VBool b) = b"
| "py_truthy (VNum s) = (readFloat s \<noteq> Some 0)"
| "py_truthy (VStr s) = (s \<noteq> [])"
| "py_truthy (VArr vs) = (vs \<noteq> [])"
| "py_truthy (VObj ms) = (ms \<noteq> [])"

text \<open>\<^verbatim>\<open>dict.get\<close> of a parsed object, in which the last of several members with one name counts.\<close>

definition py_dict_get :: "(string \<times> jvalue) list \<Rightarrow> string \<Rightarrow> jvalue option" where
  "py_dict_get ms k = map_of (rev ms) k"

text \<open>A list or an object as a key raises.\<close>

fun py_key :: "(jvalue \<Rightarrow> string) \<Rightarrow> jvalue \<Rightarrow> string option" where
  "py_key str (VStr s) = Some s"
| "py_key str (VArr vs) = None"
| "py_key str (VObj ms) = None"
| "py_key str v = Some (str v)"

fun dict_append :: "string \<Rightarrow> 'v \<Rightarrow> (string \<times> 'v list) list \<Rightarrow> (string \<times> 'v list) list" where
  "dict_append k v [] = [(k, [v])]"
| "dict_append k v ((k', vs) # d) = (if k' = k then (k, vs @ [v]) # d else (k', vs) # dict_append k v d)"

type_synonym py_vector = "(string \<times> jvalue) list"

text \<open>Any exception ends the loop and keeps what was collected.\<close>

fun consume_feature_vectors ::
    "(jvalue \<Rightarrow> string) \<Rightarrow> int \<Rightarrow> (int \<times> (string + jvalue)) list \<Rightarrow> (string \<times> py_vector list) list \<Rightarrow> (string \<times> py_vector list) list" where
  "consume_feature_vectors str cutoff [] vectors_by_ip = vectors_by_ip"
| "consume_feature_vectors str cutoff ((timestamp, val) # msgs) vectors_by_ip =
     (case val of
        Inl e \<Rightarrow> vectors_by_ip
      | Inr v \<Rightarrow>
          if timestamp < cutoff then consume_feature_vectors str cutoff msgs vectors_by_ip
          else (case v of
                  VObj fv \<Rightarrow>
                    (case py_dict_get fv ''client_ip'' of
                       None \<Rightarrow> consume_feature_vectors str cutoff msgs vectors_by_ip
                     | Some ip \<Rightarrow>
                         if py_truthy ip
                         then (case py_key str ip of
                                 None \<Rightarrow> vectors_by_ip
                               | Some k \<Rightarrow> consume_feature_vectors str cutoff msgs (dict_append k fv vectors_by_ip))
                         else consume_feature_vectors str cutoff msgs vectors_by_ip)
                | _ \<Rightarrow> vectors_by_ip))"

subsection \<open>Encoding a dictionary\<close>

fun py_float :: "(string \<Rightarrow> string + gofloat) \<Rightarrow> jvalue \<Rightarrow> string + gofloat" where
  "py_float of_str (VBool b) = Inr (Fin (if b then 1 else 0))"
| "py_float of_str (VNum s) =
     (case readFloat s of
        None \<Rightarrow> Inl ''ValueError''
      | Some x \<Rightarrow> if \<not> finite_float (f64_of_rat x) \<and> list_all (\<lambda>c. c \<notin> set ''.eE'') s then Inl ''OverflowError'' else Inr (f64_of_rat x))"
| "py_float of_str (VStr s) = of_str s"
| "py_float of_str v = Inl ''TypeError''"

fun py_size :: "jvalue \<Rightarrow> string + nat" where
  "py_size (VStr s) = Inr (py_len s)"
| "py_size (VArr vs) = Inr (length vs)"
| "py_size (VObj ms) = Inr (length (remdups (map fst ms)))"
| "py_size v = Inl ''TypeError''"

definition get_float :: "(string \<Rightarrow> string + gofloat) \<Rightarrow> py_vector \<Rightarrow> string \<Rightarrow> string + gofloat" where
  "get_float of_str fv k = (case py_dict_get fv k of None \<Rightarrow> Inr (Fin 0) | Some v \<Rightarrow> py_float of_str v)"

definition get_len :: "py_vector \<Rightarrow> string \<Rightarrow> string + gofloat" where
  "get_len fv k =
     (case py_dict_get fv k of
        None \<Rightarrow> Inr (Fin 0)
      | Some v \<Rightarrow> (case py_size v of Inl e \<Rightarrow> Inl e | Inr n \<Rightarrow> Inr (f64_of_int (int n))))"

definition encode_feature_vector :: "(string \<Rightarrow> string + gofloat) \<Rightarrow> py_vector \<Rightarrow> string + gofloat list" where
  "encode_feature_vector of_str fv =
     encode_all (\<lambda>entry. entry) (map (get_float of_str fv) [''req_rate_1s'', ''req_rate_10s'', ''req_rate_60s'', ''content_length'', ''header_count'', ''is_http2'']
       @ map (get_len fv) [''http_method'', ''ja3_hash'', ''user_agent_hash''])"

subsection \<open>The job\<close>

record ('s, 'mdl) trained =
  t_redis :: 's
  t_baseline :: "'mdl option"  \<comment> \<open>\<^verbatim>\<open>models/baseline_iso.pkl\<close>\<close>

text \<open>Both steps return the exception that ended them, if there was one, and what they left.\<close>

fun retrain_per_client ::
    "('s, 'mdl) sidecar \<Rightarrow> (string \<Rightarrow> string + gofloat) \<Rightarrow> (string \<times> py_vector list) list \<Rightarrow> 's \<Rightarrow> string option \<times> 's" where
  "retrain_per_client P of_str [] s = (None, s)"
| "retrain_per_client P of_str ((ip, vectors) # vectors_by_ip) s =
     (if MIN_SAMPLES_FOR_FIT \<le> length vectors
      then (case iso_fit P (encode_feature_vector of_str) ip vectors s of
              Inl e \<Rightarrow> (Some e, s)
            | Inr s' \<Rightarrow> retrain_per_client P of_str vectors_by_ip s')
      else retrain_per_client P of_str vectors_by_ip s)"

text \<open>The new baseline replaces the old one, which is kept beside it until the new one is written.\<close>

definition retrain_baseline ::
    "('s, 'mdl) sidecar \<Rightarrow> (string \<Rightarrow> string + gofloat) \<Rightarrow> py_vector list \<Rightarrow> 'mdl option \<Rightarrow> string option \<times> 'mdl option" where
  "retrain_baseline P of_str all_vectors base =
     (if length all_vectors < MIN_SAMPLES_FOR_FIT then (None, base)
      else (case encode_all (encode_feature_vector of_str) all_vectors of
              Inl e \<Rightarrow> (Some e, base)
            | Inr rows \<Rightarrow> (case forest_fit P 200 rows of Inl e \<Rightarrow> (Some e, base) | Inr mdl \<Rightarrow> (None, Some mdl))))"

definition retrain_main ::
    "('s, 'mdl) sidecar \<Rightarrow> (string \<Rightarrow> string + gofloat) \<Rightarrow> (jvalue \<Rightarrow> string) \<Rightarrow> int \<Rightarrow> (int \<times> (string + jvalue)) list
     \<Rightarrow> ('s, 'mdl) trained \<Rightarrow> string option \<times> ('s, 'mdl) trained" where
  "retrain_main P of_str str cutoff msgs t =
     (let vectors_by_ip = consume_feature_vectors str cutoff msgs []
      in if vectors_by_ip = [] then (None, t)
         else (case retrain_per_client P of_str vectors_by_ip (t_redis t) of
                 (Some e, s) \<Rightarrow> (Some e, t\<lparr> t_redis := s \<rparr>)
               | (None, s) \<Rightarrow>
                   (case retrain_baseline P of_str (concat (map snd vectors_by_ip)) (t_baseline t) of
                      (e, base) \<Rightarrow> (e, \<lparr> t_redis = s, t_baseline = base \<rparr>))))"

subsection \<open>What the job sees\<close>

text \<open>The messages of a topic, as a consumer gets them: stamped by the broker, their values parsed.\<close>

definition topic_messages ::
    "string \<Rightarrow> (Message \<Rightarrow> int) \<Rightarrow> (json \<Rightarrow> string + jvalue) \<Rightarrow> (string \<times> Message) list \<Rightarrow> (int \<times> (string + jvalue)) list" where
  "topic_messages topic stamp loads published =
     map (\<lambda>(t, msg). (stamp msg, loads (msg_Value msg))) (filter (\<lambda>(t, msg). t = topic) published)"

lemma topic_messagesE:
  assumes "(t, v) \<in> set (topic_messages topic stamp loads published)"
  obtains msg where "(topic, msg) \<in> set published" "v = loads (msg_Value msg)"
  using assms by (fastforce simp: topic_messages_def)

lemma py_dict_get_None: "k \<notin> fst ` set ms \<Longrightarrow> py_dict_get ms k = None"
  by (simp add: py_dict_get_def map_of_eq_None_iff)

lemma consume_anonymous:
  assumes "\<And>t v. (t, v) \<in> set msgs \<Longrightarrow> \<exists>ms. v = Inr (VObj ms) \<and> ''client_ip'' \<notin> fst ` set ms"
  shows "consume_feature_vectors str cutoff msgs d = d"
  using assms
proof (induction msgs)
  case (Cons m msgs)
  obtain t ms where "m = (t, Inr (VObj ms))" "''client_ip'' \<notin> fst ` set ms" using Cons.prems by (cases m) fastforce
  moreover have "consume_feature_vectors str cutoff msgs d = d" by (rule Cons.IH) (erule Cons.prems [OF list.set_intros(2)])
  ultimately show ?case by (simp add: py_dict_get_None)
qed simp

text \<open>A log in which every decision message is the document of some event stays so.\<close>

definition decision_log :: "(string \<times> Message) list \<Rightarrow> bool" where
  "decision_log published \<longleftrightarrow> (\<forall>msg. (topicDecisions, msg) \<in> set published \<longrightarrow> msg_Value msg \<in> range decision_json)"

context kafka_log
begin

lemma run_task_decision_log: "decision_log (sent k) \<Longrightarrow> decision_log (sent (run_task K (kafka_New brokers) now t k))"
proof (cases t)
  case (TaskBlocked ip)
  assume "decision_log (sent k)"
  then show ?thesis using PublishBlocked_sent [of brokers now ip k]
    by (auto simp: TaskBlocked run_task_def decision_log_def topicBlocked_def topicDecisions_def)
next
  case (TaskDecision evt)
  assume "decision_log (sent k)"
  then show ?thesis using PublishDecision_sent [of brokers evt k]
    by (auto simp: TaskDecision run_task_def decision_log_def)
qed

lemma tasks_decision_log:
  "decision_log (sent k) \<Longrightarrow> decision_log (sent (fold (\<lambda>(now, t). run_task K (kafka_New brokers) now t) ts k))"
  by (induction ts arbitrary: k) (auto intro: run_task_decision_log)

end

subsection \<open>Properties\<close>

text \<open>
  C24. The job never trains on what the engine publishes. Its decision events carry the address under
  \<^verbatim>\<open>ip\<close> and, nested, under \<^verbatim>\<open>feature_vector\<close>; the job looks for \<^verbatim>\<open>client_ip\<close> at the top and skips a
  message without it. So whatever goroutines the engine ran, in whatever order, on a log that started
  empty, and whatever the cut-off, it leaves Redis and the baseline as they were.
\<close>

theorem engine_events_never_train:
  assumes "kafka_log K sent" "sent k = []"
    and "\<And>ms. \<exists>vs. loads (JObj ms) = Inr (VObj vs) \<and> map fst vs = map fst ms"
  shows "retrain_main P of_str str cutoff
       (topic_messages topicDecisions stamp loads (sent (fold (\<lambda>(now, t). run_task K (kafka_New brokers) now t) ts k))) t0 = (None, t0)"
proof -
  let ?k = "fold (\<lambda>(now, t). run_task K (kafka_New brokers) now t) ts k"
  have "decision_log (sent k)" by (simp add: decision_log_def assms(2))
  from kafka_log.tasks_decision_log [OF assms(1) this]
  have ev: "msg_Value msg \<in> range decision_json" if "(topicDecisions, msg) \<in> set (sent ?k)" for msg
    using that unfolding decision_log_def by blast
  have "\<exists>ms. v = Inr (VObj ms) \<and> ''client_ip'' \<notin> fst ` set ms"
    if tv: "(t, v) \<in> set (topic_messages topicDecisions stamp loads (sent ?k))" for t v
  proof -
    obtain msg where msg: "(topicDecisions, msg) \<in> set (sent ?k)" "v = loads (msg_Value msg)"
      using tv by (rule topic_messagesE)
    obtain evt where "v = loads (decision_json evt)" using ev [OF msg(1)] msg(2) by auto
    then obtain vs where vs: "v = Inr (VObj vs)" "map fst vs = [''ip'', ''score'', ''action'', ''timestamp'', ''feature_vector'']"
      using assms(3) [of "[(''ip'', JStr (evt_IP evt)), (''score'', JFloat (evt_Score evt)), (''action'', JStr (evt_Action evt)),
        (''timestamp'', JTime (evt_Timestamp evt)), (''feature_vector'', evt_FeatureVector evt)]"]
      unfolding decision_json_def by auto
    have "fst ` set vs = set (map fst vs)" by simp
    then show ?thesis using vs by simp
  qed
  then have "consume_feature_vectors str cutoff (topic_messages topicDecisions stamp loads (sent ?k)) [] = []"
    by (rule consume_anonymous)
  then show ?thesis by (simp add: retrain_main_def)
qed

fun sample_loads :: "json \<Rightarrow> string + jvalue" where
  "sample_loads (JObj ms) = Inr (VObj (map (\<lambda>(k, v). (k, VNull)) ms))"
| "sample_loads v = Inr VNull"

definition sample_event :: DecisionEvent where
  "sample_event = \<lparr> evt_IP = ''10.0.0.1'', evt_Score = Fin 0, evt_Action = ''allow'', evt_Timestamp = 0, evt_FeatureVector = feature_json sample_fv \<rparr>"

theorem engine_events_never_train_witness:
  "retrain_main sample_sidecar Inl (\<lambda>v. []) 0
     (topic_messages topicDecisions (\<lambda>m. 5) sample_loads
       (fold (\<lambda>(now, t). run_task (broker_kafka (\<lambda>w m. False)) (kafka_New [''localhost:9092'']) now t) (replicate 20 (0, TaskDecision sample_event)) []))
     \<lparr> t_redis = Map.empty, t_baseline = None \<rparr> = (None, \<lparr> t_redis = Map.empty, t_baseline = None \<rparr>)"
  by (rule engine_events_never_train [OF broker.kafka_log_axioms]) (auto simp: comp_def case_prod_unfold)

text \<open>A message with \<^verbatim>\<open>client_ip\<close> at the top is collected under it.\<close>

lemma consume_named:
  assumes "py_dict_get fv ''client_ip'' = Some (VStr ip)" "ip \<noteq> []" "cutoff \<le> t"
  shows "consume_feature_vectors str cutoff ((t, Inr (VObj fv)) # msgs) d =
     consume_feature_vectors str cutoff msgs (dict_append ip fv d)"
  using assms by simp

end
