(* ===== verification/SlidingWindow.thy ===== *)
theory SlidingWindow
  imports TokenBucket "HOL-Library.Multiset" "HOL-Library.Finite_Map"
begin

text \<open>
  The stand-alone scripts of \<^verbatim>\<open>redis/lua-scripts\<close>: \<^verbatim>\<open>token_bucket.lua\<close>, a rate limiter over a sorted set of the
  admitted requests, and \<^verbatim>\<open>get_set_model.lua\<close>. Redis' commands are a record of functions on a server
  state \<open>'s\<close>, as for the engine's own script.
\<close>

subsection \<open>The scripts\<close>

record 's zredis =
  ZREMRANGEBYSCORE :: "'s \<Rightarrow> string \<Rightarrow> string \<Rightarrow> string \<Rightarrow> (redis_err + int) \<times> 's"
  ZCARD :: "'s \<Rightarrow> string \<Rightarrow> (redis_err + int) \<times> 's"
  TIME :: "'s \<Rightarrow> (redis_err + string \<times> string) \<times> 's"
  ZADD :: "'s \<Rightarrow> string \<Rightarrow> string \<Rightarrow> string \<Rightarrow> (redis_err + int) \<times> 's"
  z_EXPIRE :: "'s \<Rightarrow> string \<Rightarrow> string \<Rightarrow> (redis_err + int) \<times> 's"
  z_EXISTS :: "'s \<Rightarrow> string \<Rightarrow> (redis_err + int) \<times> 's"
  z_GET :: "'s \<Rightarrow> string \<Rightarrow> (redis_err + string option) \<times> 's"
  z_TTL :: "'s \<Rightarrow> string \<Rightarrow> (redis_err + int) \<times> 's"
  z_tonumber :: "string \<Rightarrow> gofloat option"
  z_tostring :: "gofloat \<Rightarrow> string"

text \<open>One answer for every path: 1 allows, 0 denies. A \<open>nil\<close> in arithmetic, a comparison or an argument raises.\<close>

definition token_bucket_lua :: "'s zredis \<Rightarrow> string \<Rightarrow> string \<Rightarrow> string \<Rightarrow> string \<Rightarrow> 's \<Rightarrow> (redis_err + int) \<times> 's" where
  "token_bucket_lua Z key argv1 argv2 argv3 s0 =
     (case (z_tonumber Z argv3, z_tonumber Z argv2) of
        (Some now, Some window_seconds) \<Rightarrow>
          (let window_start = add64 now (f_minus window_seconds)
           in case ZREMRANGEBYSCORE Z s0 key ''-inf'' (z_tostring Z window_start) of
                (Inl e, s1) \<Rightarrow> (Inl e, s1)
              | (Inr _, s1) \<Rightarrow>
                  (case ZCARD Z s1 key of
                     (Inl e, s2) \<Rightarrow> (Inl e, s2)
                   | (Inr current_count, s2) \<Rightarrow>
                       (case z_tonumber Z argv1 of
                          None \<Rightarrow> (Inl LuaError, s2)
                        | Some max_tokens \<Rightarrow>
                            if f_gt max_tokens (f64_of_int current_count) then
                              (case TIME Z s2 of
                                 (Inl e, s3) \<Rightarrow> (Inl e, s3)
                               | (Inr (sec, usec), s3) \<Rightarrow>
                                   (case ZADD Z s3 key (z_tostring Z now) (sec @ ''.'' @ usec) of
                                      (Inl e, s4) \<Rightarrow> (Inl e, s4)
                                    | (Inr _, s4) \<Rightarrow>
                                        (case z_EXPIRE Z s4 key (z_tostring Z window_seconds) of
                                           (Inl e, s5) \<Rightarrow> (Inl e, s5)
                                         | (Inr _, s5) \<Rightarrow> (Inr 1, s5))))
                            else
                              (case z_EXPIRE Z s2 key (z_tostring Z window_seconds) of
                                 (Inl e, s3) \<Rightarrow> (Inl e, s3)
                               | (Inr _, s3) \<Rightarrow> (Inr 0, s3)))))
      | _ \<Rightarrow> (Inl LuaError, s0))"

text \<open>\<open>None\<close> is the \<^verbatim>\<open>false\<close> that tells the caller to load the baseline model.\<close>

definition get_set_model_lua :: "'s zredis \<Rightarrow> string \<Rightarrow> 's \<Rightarrow> (redis_err + (string \<times> int) option) \<times> 's" where
  "get_set_model_lua Z key s0 =
     (case z_EXISTS Z s0 key of
        (Inl e, s1) \<Rightarrow> (Inl e, s1)
      | (Inr n, s1) \<Rightarrow>
          if n = 0 then (Inr None, s1)
          else (case z_GET Z s1 key of
                  (Inl e, s2) \<Rightarrow> (Inl e, s2)
                | (Inr model_bytes, s2) \<Rightarrow>
                    (case z_TTL Z s2 key of
                       (Inl e, s3) \<Rightarrow> (Inl e, s3)
                     | (Inr ttl_remaining, s3) \<Rightarrow> (Inr (map_option (\<lambda>b. (b, ttl_remaining)) model_bytes), s3))))"

subsection \<open>The reference: a log of admitted requests\<close>

text \<open>A request at time \<open>t\<close> is admitted if fewer than \<open>mx\<close> were admitted in the last \<open>W\<close> seconds.\<close>

fun spec_slide :: "int \<Rightarrow> int \<Rightarrow> int list \<Rightarrow> int list \<Rightarrow> bool list" where
  "spec_slide mx W past [] = []"
| "spec_slide mx W past (t # ts) =
     (let live = filter (\<lambda>u. t - W < u) past
      in if int (length live) < mx then True # spec_slide mx W (t # live) ts else False # spec_slide mx W live ts)"

definition admitted_times :: "int list \<Rightarrow> bool list \<Rightarrow> int list" where
  "admitted_times ts oks = map fst (filter snd (zip ts oks))"

definition in_window :: "int \<Rightarrow> int \<Rightarrow> int list \<Rightarrow> int list" where
  "in_window W t = filter (\<lambda>u. t - W < u \<and> u \<le> t)"

lemma admitted_times_simps [simp]:
  "admitted_times [] oks = []" "admitted_times (t # ts) (b # oks) = (if b then t # admitted_times ts oks else admitted_times ts oks)"
  by (simp_all add: admitted_times_def)

lemma admitted_subset: "set (admitted_times ts oks) \<subseteq> set ts"
  by (auto simp: admitted_times_def dest: set_zip_leftD)

lemma in_window_simps [simp]:
  "in_window W t [] = []" "in_window W t (u # us) = (if t - W < u \<and> u \<le> t then u # in_window W t us else in_window W t us)"
  by (simp_all add: in_window_def)

lemma in_window_live: "t0 \<le> t \<Longrightarrow> in_window W t (filter (\<lambda>u. t0 - W < u) past) = in_window W t past"
  by (induction past) auto

lemma in_window_later: "(\<And>u. u \<in> set us \<Longrightarrow> t < u) \<Longrightarrow> in_window W t us = []"
  by (fastforce simp: in_window_def filter_empty_conv)

lemma length_in_window: "length (in_window W t us) \<le> length us"
  by (simp add: in_window_def)

lemma spec_slide_limit:
  assumes "sorted ts" "int (length past) \<le> mx"
  shows "int (length (in_window W t past)) + int (length (in_window W t (admitted_times ts (spec_slide mx W past ts)))) \<le> mx"
  using assms
proof (induction ts arbitrary: past)
  case Nil
  then show ?case using length_in_window [of W t past] by simp
next
  case (Cons t0 ts)
  let ?live = "filter (\<lambda>u. t0 - W < u) past"
  have live: "length ?live \<le> length past" by simp
  show ?case
  proof (cases "t < t0")
    case True
    have "t < u" if "u \<in> set (admitted_times (t0 # ts) oks)" for u oks
      using that admitted_subset [of "t0 # ts" oks] Cons.prems(1) True by fastforce
    then have "in_window W t (admitted_times (t0 # ts) (spec_slide mx W past (t0 # ts))) = []" by (rule in_window_later)
    then show ?thesis using length_in_window [of W t past] Cons.prems(2) by simp
  next
    case False
    then have "t0 \<le> t" by simp
    note same = in_window_live [OF this, of W past]
    show ?thesis
    proof (cases "int (length ?live) < mx")
      case True
      then show ?thesis using Cons.IH [of "t0 # ?live"] Cons.prems(1) same by (auto simp: Let_def)
    next
      case False
      then show ?thesis using Cons.IH [of ?live] Cons.prems live same by (simp add: Let_def)
    qed
  qed
qed

lemma length_spec_slide: "length (spec_slide mx W past ts) = length ts"
  by (induction ts arbitrary: past) (simp_all add: Let_def)

subsection \<open>The script refines the log\<close>

text \<open>
  The commands on a server whose sorted sets are \<open>zset\<close>, a map from members to scores per key. Between two
  scripts the server's clock moves (\<open>tick_to\<close>) and a key may expire (\<open>forget\<close>). The command reference gives these
  laws; text and number conversions are exact on the integers the script is called with.
\<close>

definition exact_int :: "int \<Rightarrow> bool" where
  "exact_int n \<longleftrightarrow> \<bar>n\<bar> < 2 ^ 52"

locale sorted_sets =
  fixes Z :: "'s zredis" and zset :: "'s \<Rightarrow> string \<Rightarrow> string \<Rightarrow> rat option"
    and tick_to :: "string \<times> string \<Rightarrow> 's \<Rightarrow> 's" and forget :: "string \<Rightarrow> 's \<Rightarrow> 's" and clock :: "'s \<Rightarrow> string \<times> string"
  assumes finite_zset: "finite (dom (zset s k))"
    and tonumber: "exact_int n \<Longrightarrow> z_tonumber Z (show_int n) = Some (Fin (of_int n))"
    and zremrange: "\<exists>n s'. ZREMRANGEBYSCORE Z s k ''-inf'' (z_tostring Z (Fin x)) = (Inr n, s') \<and>
        zset s' = (zset s)(k := zset s k |` {m. \<not> the (zset s k m) \<le> x}) \<and> clock s' = clock s"
    and zcard: "ZCARD Z s k = (Inr (int (card (dom (zset s k)))), s)"
    and time: "TIME Z s = (Inr (clock s), s)"
    and zadd: "\<exists>n s'. ZADD Z s k (z_tostring Z (Fin x)) m = (Inr n, s') \<and> zset s' = (zset s)(k := (zset s k)(m \<mapsto> x)) \<and> clock s' = clock s"
    and expire: "0 < x \<Longrightarrow> \<exists>n s'. z_EXPIRE Z s k (z_tostring Z (Fin x)) = (Inr n, s') \<and> zset s' = zset s \<and> clock s' = clock s"
    and tick_to: "zset (tick_to c s) = zset s" "clock (tick_to c s) = c"
    and forget: "zset (forget k s) = (zset s)(k := Map.empty)" "clock (forget k s) = clock s"

text \<open>
  A series of calls for one key: the time the caller passes, the server's clock, and whether the key
  expired since the last call. It can only have if the window has passed since then.
\<close>

type_synonym call = "int \<times> (string \<times> string) \<times> bool"

definition member_of :: "string \<times> string \<Rightarrow> string" where
  "member_of c = fst c @ ''.'' @ snd c"

fun slide_calls ::
    "'s zredis \<Rightarrow> (string \<times> string \<Rightarrow> 's \<Rightarrow> 's) \<Rightarrow> (string \<Rightarrow> 's \<Rightarrow> 's) \<Rightarrow> string \<Rightarrow> int \<Rightarrow> int \<Rightarrow> 's \<Rightarrow> call list \<Rightarrow> (redis_err + int) list" where
  "slide_calls Z tick_to forget key mx W s [] = []"
| "slide_calls Z tick_to forget key mx W s ((t, c, gone) # cs) =
     (let s1 = tick_to c (if gone then forget key s else s);
          (r, s2) = token_bucket_lua Z key (show_int mx) (show_int W) (show_int t) s1
      in r # slide_calls Z tick_to forget key mx W s2 cs)"

fun calls_ok :: "int \<Rightarrow> int \<Rightarrow> call list \<Rightarrow> bool" where
  "calls_ok W prev [] = True"
| "calls_ok W prev ((t, c, gone) # cs) = (prev \<le> t \<and> (gone \<longrightarrow> prev + W \<le> t) \<and> exact_int t \<and> calls_ok W t cs)"

lemma calls_sorted: "calls_ok W prev cs \<Longrightarrow> sorted (prev # map fst cs)"
proof (induction cs arbitrary: prev)
  case (Cons call cs)
  then show ?case by (cases call) fastforce
qed simp

text \<open>The scores held for a key, and that they are the log's entries.\<close>

definition scores :: "(string \<Rightarrow> rat option) \<Rightarrow> rat multiset" where
  "scores zs = image_mset (\<lambda>m. the (zs m)) (mset_set (dom zs))"

lemma scores_empty [simp]: "scores Map.empty = {#}"
  by (simp add: scores_def)

lemma size_scores: "size (scores zs) = card (dom zs)"
  by (simp add: scores_def)

lemma scores_restrict:
  assumes "finite (dom zs)"
  shows "scores (zs |` {m. P (the (zs m))}) = filter_mset P (scores zs)"
proof -
  have d: "dom (zs |` {m. P (the (zs m))}) = {m \<in> dom zs. P (the (zs m))}" by auto
  have "scores (zs |` {m. P (the (zs m))}) = image_mset (\<lambda>m. the (zs m)) (mset_set {m \<in> dom zs. P (the (zs m))})"
    unfolding scores_def d using assms by (intro image_mset_cong) auto
  then show ?thesis using assms by (simp add: scores_def filter_mset_image_mset filter_mset_mset_set)
qed

lemma scores_add:
  assumes "finite (dom zs)" "m \<notin> dom zs"
  shows "scores (zs(m \<mapsto> x)) = add_mset x (scores zs)"
proof -
  have "image_mset (\<lambda>n. the ((zs(m \<mapsto> x)) n)) (mset_set (dom zs)) = image_mset (\<lambda>n. the (zs n)) (mset_set (dom zs))"
    using assms by (intro image_mset_cong) auto
  then show ?thesis using assms by (simp add: scores_def)
qed

lemma filter_scores:
  "filter_mset (\<lambda>x. \<not> x \<le> of_int (t - W)) (mset (map of_int past)) = (mset (map of_int (filter (\<lambda>u. t - W < u) past)) :: rat multiset)"
  by (induction past) (simp_all add: not_le del: of_int_diff)

lemma disjoint_insert_mono: "A \<subseteq> insert x B \<Longrightarrow> x \<notin> C \<Longrightarrow> B \<inter> C = {} \<Longrightarrow> A \<inter> C = {}"
  by blast

lemma exact_int_f64: "exact_int n \<Longrightarrow> f64_of_int n = Fin (of_int n)"
  by (rule f64_of_int_exact) (simp add: exact_int_def)

lemma window_start_exact:
  assumes "exact_int t" "exact_int W"
  shows "add64 (Fin (of_int t)) (f_minus (Fin (of_int W))) = Fin (of_int (t - W))"
proof -
  have "\<bar>t - W\<bar> < 2 ^ 53" using assms by (simp add: exact_int_def)
  from f64_of_int_exact [OF this] show ?thesis by (simp add: f64_of_int_def)
qed

context sorted_sets
begin

text \<open>One call on a key whose scores are the log \<open>past\<close>.\<close>

lemma script_step:
  assumes "scores (zset s k) = mset (map of_int past)" "exact_int t" "exact_int W" "0 < W" "exact_int mx"
    and "member_of (clock s) \<notin> dom (zset s k)" "exact_int (int (length past))"
  defines "live \<equiv> filter (\<lambda>u. t - W < u) past"
  defines "ok \<equiv> int (length live) < mx"
  obtains s' where "token_bucket_lua Z k (show_int mx) (show_int W) (show_int t) s = (Inr (if ok then 1 else 0), s')"
    "scores (zset s' k) = mset (map of_int (if ok then t # live else live))"
    "dom (zset s' k) \<subseteq> insert (member_of (clock s)) (dom (zset s k))"
proof -
  let ?keep = "zset s k |` {m. \<not> the (zset s k m) \<le> of_int (t - W)}"
  obtain n1 s1 where s1: "ZREMRANGEBYSCORE Z s k ''-inf'' (z_tostring Z (Fin (of_int (t - W)))) = (Inr n1, s1)"
      "zset s1 = (zset s)(k := ?keep)" "clock s1 = clock s"
    using zremrange by blast
  have keep: "scores ?keep = mset (map of_int live)"
    unfolding live_def filter_scores [symmetric] assms(1) [symmetric] by (rule scores_restrict [OF finite_zset])
  have dom: "dom ?keep \<subseteq> dom (zset s k)" by (simp add: dom_restrict)
  have card: "int (card (dom ?keep)) = int (length live)"
    using arg_cong [OF keep, of size] by (simp add: size_scores)
  have "length live \<le> length past" by (simp add: live_def)
  then have len: "exact_int (int (length live))" using assms(7) by (simp add: exact_int_def)
  have cmp: "f_gt (Fin (of_int mx)) (f64_of_int (int (card (dom ?keep)))) = ok"
    unfolding card exact_int_f64 [OF len] by (simp add: f_gt_def ok_def del: of_int_of_nat_eq)
  note start = tonumber [OF assms(2)] tonumber [OF assms(3)] tonumber [OF assms(5)] window_start_exact [OF assms(2,3)] s1(1) zcard s1(2) cmp
  show ?thesis
  proof (cases ok)
    case True
    obtain n2 s2 where s2: "ZADD Z s1 k (z_tostring Z (Fin (of_int t))) (member_of (clock s)) = (Inr n2, s2)"
        "zset s2 = (zset s1)(k := (zset s1 k)(member_of (clock s) \<mapsto> of_int t))"
      using zadd by blast
    obtain n3 s3 where s3: "z_EXPIRE Z s2 k (z_tostring Z (Fin (of_int W))) = (Inr n3, s3)" "zset s3 = zset s2"
      using expire [of "of_int W"] assms(4) by fastforce
    have "token_bucket_lua Z k (show_int mx) (show_int W) (show_int t) s = (Inr 1, s3)"
      using start True time [of s1] s1(3) s2(1) s3(1)
      by (cases "clock s") (simp add: token_bucket_lua_def member_of_def del: of_int_diff f_minus.simps add64.simps)
    moreover have "scores (zset s3 k) = mset (map of_int (t # live))"
      using scores_add [of ?keep "member_of (clock s)" "of_int t"] finite_zset [of s k] assms(6) keep s1(2) s2(2) s3(2) by auto
    moreover have "dom (zset s3 k) \<subseteq> insert (member_of (clock s)) (dom (zset s k))"
      using dom s1(2) s2(2) s3(2) by (simp del: dom_restrict) blast
    ultimately show ?thesis using True by (intro that) auto
  next
    case False
    obtain n3 s3 where s3: "z_EXPIRE Z s1 k (z_tostring Z (Fin (of_int W))) = (Inr n3, s3)" "zset s3 = zset s1"
      using expire [of "of_int W"] assms(4) by fastforce
    have "token_bucket_lua Z k (show_int mx) (show_int W) (show_int t) s = (Inr 0, s3)"
      using start False s3(1)
      by (simp add: token_bucket_lua_def del: of_int_diff f_minus.simps add64.simps)
    moreover have "dom (zset s3 k) \<subseteq> insert (member_of (clock s)) (dom (zset s k))"
      using dom s1(2) s3(2) by (simp del: dom_restrict) blast
    moreover have "scores (zset s3 k) = mset (map of_int live)" using keep s1(2) s3(2) by simp
    ultimately show ?thesis using False by (intro that) auto
  qed
qed

text \<open>The whole series: the script answers what the log answers.\<close>

lemma calls_refine:
  assumes "scores (zset s k) = mset (map of_int past)" "\<And>u. u \<in> set past \<Longrightarrow> u \<le> prev" "calls_ok W prev cs"
    and "exact_int W" "0 < W" "exact_int mx" "int (length past) \<le> max mx 0"
    and "dom (zset s k) \<inter> member_of ` fst ` snd ` set cs = {}" "distinct (map (member_of \<circ> fst \<circ> snd) cs)"
  shows "slide_calls Z tick_to forget k mx W s cs = map (\<lambda>ok. Inr (if ok then 1 else 0)) (spec_slide mx W past (map fst cs))"
  using assms
proof (induction cs arbitrary: s past prev)
  case (Cons call cs)
  obtain t c gone where call: "call = (t, c, gone)" by (metis prod_cases3)
  let ?past = "if gone then [] else past" and ?s = "tick_to c (if gone then forget k s else s)"
  let ?live = "filter (\<lambda>u. t - W < u) past" and ?old = "filter (\<lambda>u. t - W < u) ?past"
  let ?ok = "int (length ?old) < mx"
  have t: "prev \<le> t" "gone \<Longrightarrow> prev + W \<le> t" "exact_int t" "calls_ok W t cs" using Cons.prems(3) by (auto simp: call)
  have live: "?old = ?live"
  proof (cases gone)
    case True
    then have "\<not> t - W < u" if "u \<in> set past" for u using Cons.prems(2) [OF that] t(2) by simp
    then show ?thesis using True by (simp add: filter_empty_conv)
  qed simp
  have z: "zset ?s k = (if gone then Map.empty else zset s k)" by (simp add: tick_to forget)
  have sc: "scores (zset ?s k) = mset (map of_int ?past)" using Cons.prems(1) by (simp add: z)
  have fresh: "member_of (clock ?s) \<notin> dom (zset ?s k)" unfolding z using Cons.prems(8) by (auto simp: tick_to call)
  have len: "exact_int (int (length ?past))" using Cons.prems(6,7) by (auto simp: exact_int_def)
  obtain s' where s': "token_bucket_lua Z k (show_int mx) (show_int W) (show_int t) ?s = (Inr (if ?ok then 1 else 0), s')"
      "scores (zset s' k) = mset (map of_int (if ?ok then t # ?old else ?old))"
      "dom (zset s' k) \<subseteq> insert (member_of (clock ?s)) (dom (zset ?s k))"
    using script_step [OF sc t(3) Cons.prems(4,5,6) fresh len] by blast
  have "slide_calls Z tick_to forget k mx W s' cs =
      map (\<lambda>ok. Inr (if ok then 1 else 0)) (spec_slide mx W (if ?ok then t # ?old else ?old) (map fst cs))"
  proof (rule Cons.IH [OF s'(2) _ t(4) Cons.prems(4,5,6)])
    show "u \<le> t" if "u \<in> set (if ?ok then t # ?old else ?old)" for u
      using that Cons.prems(2) t(1) by (auto split: if_splits) (meson order_trans)+
    have "length ?old \<le> length past" by simp
    then show "int (length (if ?ok then t # ?old else ?old)) \<le> max mx 0" using Cons.prems(7) by auto
    have "dom (zset s' k) \<subseteq> insert (member_of c) (dom (zset s k))"
      using s'(3) unfolding z tick_to(2) by (cases gone) auto
    moreover have "member_of c \<notin> member_of ` fst ` snd ` set cs" using Cons.prems(9) by (auto simp: call image_image)
    moreover have "dom (zset s k) \<inter> member_of ` fst ` snd ` set cs = {}" using Cons.prems(8) unfolding call list.set image_insert by blast
    ultimately show "dom (zset s' k) \<inter> member_of ` fst ` snd ` set cs = {}" by (rule disjoint_insert_mono)
    show "distinct (map (member_of \<circ> fst \<circ> snd) cs)" using Cons.prems(9) by (simp add: comp_def)
  qed
  then show ?case using s'(1) live by (simp add: call Let_def)
qed simp

end

subsection \<open>A server with sorted sets\<close>

record zserver =
  zs_sets :: "string \<Rightarrow> (string, rat) fmap"
  zs_clock :: "string \<times> string"

text \<open>A set as a finite map from members to scores; numbers pass as the text of their fraction.\<close>

definition frac_text :: "gofloat \<Rightarrow> string" where
  "frac_text f = (case f of Fin x \<Rightarrow> show_int (fst (quotient_of x)) @ ''/'' @ show_int (snd (quotient_of x)) | _ \<Rightarrow> ''nan'')"

definition read_frac :: "string \<Rightarrow> rat" where
  "read_frac text = (case Split (CHR ''/'') text of
       [a, b] \<Rightarrow> (case (readFloat a, readFloat b) of (Some x, Some y) \<Rightarrow> x / y | _ \<Rightarrow> 0)
     | _ \<Rightarrow> 0)"

definition zserver_redis :: "zserver zredis" where
  "zserver_redis =
     \<lparr> ZREMRANGEBYSCORE = (\<lambda>s k lo hi. (Inr 0, s\<lparr> zs_sets := (zs_sets s)(k := fmfilter (\<lambda>m. \<not> the (fmlookup (zs_sets s k) m) \<le> read_frac hi) (zs_sets s k)) \<rparr>)),
       ZCARD = (\<lambda>s k. (Inr (int (card (dom (fmlookup (zs_sets s k))))), s)),
       TIME = (\<lambda>s. (Inr (zs_clock s), s)),
       ZADD = (\<lambda>s k x m. (Inr 1, s\<lparr> zs_sets := (zs_sets s)(k := fmupd m (read_frac x) (zs_sets s k)) \<rparr>)),
       z_EXPIRE = (\<lambda>s k x. (Inr 1, s)),
       z_EXISTS = (\<lambda>s k. (Inr (if zs_sets s k = fmempty then 0 else 1), s)),
       z_GET = (\<lambda>s k. (Inl (RedisError ''WRONGTYPE''), s)),
       z_TTL = (\<lambda>s k. (Inr (- 1), s)),
       z_tonumber = (\<lambda>text. map_option f64_of_rat (readFloat text)),
       z_tostring = frac_text \<rparr>"

lemma read_frac_text [simp]: "read_frac (frac_text (Fin x)) = x"
proof -
  have no: "CHR ''/'' \<notin> set (show_int n)" for n
    using show_nat_digits [of "CHR ''/''"] by (auto simp: show_int_def is_digit_def split: if_splits)
  obtain n d where q: "quotient_of x = (n, d)" by fastforce
  then show ?thesis using quotient_of_div [OF q]
    by (simp add: frac_text_def read_frac_def Split_append [OF no] Split_single [OF no] readFloat_show_int)
qed

definition zset_of :: "zserver \<Rightarrow> string \<Rightarrow> string \<Rightarrow> rat option" where
  "zset_of s k = fmlookup (zs_sets s k)"

definition zs_at :: "string \<times> string \<Rightarrow> zserver \<Rightarrow> zserver" where
  "zs_at c s = s\<lparr> zs_clock := c \<rparr>"

definition zs_forget :: "string \<Rightarrow> zserver \<Rightarrow> zserver" where
  "zs_forget k s = s\<lparr> zs_sets := (zs_sets s)(k := fmempty) \<rparr>"

interpretation zs: sorted_sets zserver_redis zset_of zs_at zs_forget zs_clock
proof
  show "z_tonumber zserver_redis (show_int n) = Some (Fin (of_int n))" if "exact_int n" for n
    using exact_int_f64 [OF that] by (simp add: zserver_redis_def readFloat_show_int f64_of_int_def)
  show "\<exists>n s'. ZREMRANGEBYSCORE zserver_redis s k ''-inf'' (z_tostring zserver_redis (Fin x)) = (Inr n, s') \<and>
      zset_of s' = (zset_of s)(k := zset_of s k |` {m. \<not> the (zset_of s k m) \<le> x}) \<and> zs_clock s' = zs_clock s" for s k x
    by (auto simp: zserver_redis_def zset_of_def restrict_map_def fun_eq_iff)
  show "finite (dom (zset_of s k))" for s k by (simp add: zset_of_def)
  show "ZCARD zserver_redis s k = (Inr (int (card (dom (zset_of s k)))), s)" for s k
    by (simp add: zserver_redis_def zset_of_def)
  show "zset_of (zs_forget k s) = (zset_of s)(k := Map.empty)" for s k
    by (simp add: zset_of_def zs_forget_def fun_eq_iff)
  show "\<exists>n s'. ZADD zserver_redis s k (z_tostring zserver_redis (Fin x)) m = (Inr n, s') \<and>
      zset_of s' = (zset_of s)(k := (zset_of s k)(m \<mapsto> x)) \<and> zs_clock s' = zs_clock s" for s k x m
    by (simp add: zserver_redis_def zset_of_def fun_eq_iff)
qed (simp_all add: zserver_redis_def zset_of_def zs_at_def zs_forget_def fun_eq_iff)

subsection \<open>Properties\<close>



end
