(* ===== verification/Spec2Isabelle.thy ===== *)
theory Spec2Isabelle
  imports Limiter Gateway Timing LoaderApi LoaderAttach SidecarStart Retrain SlidingWindow
begin

text \<open>
  A verification library for the rate limiter: the Go decision engine, the Go loader of the packet
  filter, the filter itself, the Nginx access phase, the Python scoring sidecar with its retraining job,
  and the stand-alone Redis scripts.

  \<^bold>\<open>The program.\<close> Nginx (\<^verbatim>\<open>nginx/lua\<close>) counts every request per client and sends its feature vector, one JSON
  line, over a Unix socket to the decision engine (\<^verbatim>\<open>decision-engine/cmd/server\<close>). The engine takes a token
  from the client's bucket in Redis (\<^verbatim>\<open>internal/redis\<close>), asks the ML sidecar for an anomaly score
  (\<^verbatim>\<open>internal/ml\<close>, \<^verbatim>\<open>proto\<close>, \<^verbatim>\<open>ml-sidecar\<close>), decides to allow, throttle or block (\<^verbatim>\<open>internal/engine\<close>), adds blocked
  clients to a kernel map (\<^verbatim>\<open>cmd/ebpf\<close>) and publishes events to Kafka (\<^verbatim>\<open>internal/kafka\<close>). Nginx passes the
  request on, answers 429 or answers 403. Settings come from the environment (\<^verbatim>\<open>internal/config\<close>). Beside it,
  \<^verbatim>\<open>ebpf/loader\<close> attaches the traffic-control program \<^verbatim>\<open>ebpf/tc_blocker.c\<close> and manages its map over HTTP, and
  \<^verbatim>\<open>ml-sidecar/training\<close> reads the events back to retrain the models.

  \<^bold>\<open>Theories.\<close>
  \<^item> \<open>Prelude\<close>: machine types, panics as values, byte order, decimal printing.
  \<^item> \<open>GoFloat\<close>, \<open>GoStrings\<close>, \<open>GoUtf8\<close>, \<open>GoNet\<close>, \<open>GoTime\<close>, \<open>Json\<close>: what the source uses of Go's standard library: exact
    \<^verbatim>\<open>float32\<close>/\<^verbatim>\<open>float64\<close> arithmetic over rationals, \<^verbatim>\<open>strings.Split\<close>, \<^verbatim>\<open>TrimSpace\<close>, \<^verbatim>\<open>ParseInt\<close>, \<^verbatim>\<open>ParseFloat\<close>,
    UTF-8, \<^verbatim>\<open>net.ParseIP\<close>, RFC 3339 times, JSON trees and HTTP responses.
  \<^item> \<open>JsonText\<close>: the scanner and parser of \<^verbatim>\<open>encoding/json\<close> as a machine with a stack, one character at a time,
    and a printer. \<open>JsonDecode\<close>: storing a parsed value in a struct, and the feature vector's tags.
  \<^item> \<open>Config\<close>: \<^verbatim>\<open>config.go\<close>. \<open>Proto\<close>: messages, accessors, client and server stubs of the scorer (locale \<open>rpc_wire\<close>). \<open>MlClient\<close>: \<^verbatim>\<open>ml/client.go\<close>.
    \<open>Kafka\<close>: \<^verbatim>\<open>kafka/producer.go\<close>, with brokers behind the locale \<open>kafka_log\<close>.
  \<^item> \<open>TokenBucket\<close>: \<^verbatim>\<open>redis/client.go\<close> with its Lua script, over a record of Redis commands. The locale
    \<open>healthy_redis\<close> states their documented behaviour, \<open>token_bucket\<close> the contract of a bucket service,
    \<open>bucket_client\<close> (a sublocale of it) the client with sound settings. \<open>RedisServer\<close> is a reference
    server that satisfies the laws.
  \<^item> \<open>BpfMap\<close>: the kernel map behind \<^verbatim>\<open>cilium/ebpf\<close> (locale \<open>bpf_map\<close>, satisfied by a list-based LRU map).
    \<open>Blocklist\<close>: \<^verbatim>\<open>cmd/ebpf/blocklist.go\<close> (locales \<open>block_list\<close>, \<open>ebpf_blocklist\<close>).
  \<^item> \<open>Engine\<close>: \<^verbatim>\<open>engine.go\<close> and \<^verbatim>\<open>engine_testing.go\<close>; \<open>Evaluate\<close> is the whole handler on a state of Redis, map and
    started goroutines. \<open>Concurrency\<close>: many calls in flight, as a step relation over their atomic actions.
    \<open>Node\<close>: the process, the calls in flight beside the management requests on the same map. \<open>Limiter\<close>: an abstract
    limiter and the refinement mapping that takes every run of the process to a run of it (locales \<open>refinement_map\<close>,
    \<open>bucket_process\<close>).
    \<open>Server\<close>: \<^verbatim>\<open>cmd/server/main.go\<close>, wiring, line protocol, accept loop, routes, shutdown.
  \<^item> \<open>TcBlocker\<close>: \<^verbatim>\<open>tc_blocker.c\<close> over packet bytes, with loads that can fault, and the XDP placeholder. \<open>LoaderApi\<close>: the loader's HTTP
    handlers. \<open>LoaderAttach\<close>: its start-up over a kernel whose treatment of pinned maps is the locale
    \<open>bpf_loading\<close>.
  \<^item> \<open>Nginx\<close>: \<^verbatim>\<open>counter.lua\<close>, \<^verbatim>\<open>fingerprint.lua\<close>, \<^verbatim>\<open>access.lua\<close>, \<^verbatim>\<open>metrics.lua\<close> (locales \<open>shared_dict\<close> and \<open>cjson\<close>).
    \<open>AccessPhase\<close>: the access phase with the engine's connection handler behind its socket. \<open>Traffic\<close>: series of requests
    through both, with the state carried along. \<open>Gateway\<close>: \<^verbatim>\<open>nginx/conf.d/default.conf\<close> and the engine's HTTP routes behind it. \<open>Timing\<close>: the connection against its deadline and nginx' time limit.
  \<^item> \<open>Sidecar\<close>: \<^verbatim>\<open>server.py\<close>, \<^verbatim>\<open>scorer.py\<close> and the two models (locale \<open>py_store\<close> for Redis and \<^verbatim>\<open>json\<close>). \<open>SidecarStart\<close>:
    the models found on disk at its start (locale \<open>model_disk\<close>). \<open>Retrain\<close>:
    \<^verbatim>\<open>retrain.py\<close>. \<open>SlidingWindow\<close>: \<^verbatim>\<open>redis/lua-scripts\<close> (locale \<open>sorted_sets\<close>).
  \<^item> This theory: properties that span components.

  \<^bold>\<open>Correspondence.\<close> Definitions carry the names of the source (with a prefix where packages
  reuse a name: \<open>redis_New\<close>, \<open>ml_New\<close>, \<open>kafka_New\<close>, \<open>ebpf_New\<close>, \<open>engine_New\<close>, \<open>iso_score\<close>, \<open>lstm_score\<close>). A pointer that may
  be nil is an \<open>option\<close>; \<^verbatim>\<open>(T, error)\<close> is a sum or a pair with an \<open>option\<close>; a Python exception is \<open>Inl\<close>; a run-time
  panic is the value \<open>Panics\<close>. \<^verbatim>\<open>int64\<close> and \<^verbatim>\<open>uint64\<close> settings, expiry times and keys are words, so their
  arithmetic wraps. A \<^verbatim>\<open>go\<close> statement appends to the list of started goroutines, which later run in any
  order. Logging is left out.

  \<^bold>\<open>Parameters.\<close> Code outside the repository is an argument: Redis commands, the gRPC connection, the Kafka
  writer and consumer, the BPF map and loading calls, gin's binding, Nginx' shared dictionary, sockets,
  \<^verbatim>\<open>cjson\<close> and request variables, the learned models, \<^verbatim>\<open>joblib\<close> and Python's \<^verbatim>\<open>json\<close>. What the code relies on is
  stated in locales, each interpreted on a concrete instance. \<open>oob\<close> is the result of a float-to-integer
  conversion out of range, which Go leaves to the platform; \<open>transport\<close> is the fate of one Redis call
  (delivered, lost before or after the script ran).

  \<^bold>\<open>What is shown.\<close> The bucket refines an abstract counter with expiry; from that, the limit per window,
  the refill after a pause, and that steady traffic is never refilled, since every request renews
  the expiry. The process, under every interleaving of concurrent requests and management, refines an abstract limiter,
  of which the limit is proved; a time to live whose nanoseconds are not positive, also by overflow, switches it off; the work of the
  requests in flight always ends; an address is in the kernel map only for a decision or a request that put it there. The engine follows its policy on every branch, fails open on Redis and
  scoring errors, panics exactly when it was wired without a scoring client, and starts exactly the
  events it should. Its decision is what Nginx enforces, down to the bytes on the socket, if it comes in time, and a late one is not
  enforced although the engine has acted on it; over a series of requests the clients meet the limit of the bucket, exactly. The management routes are open to every client. Nginx fails
  open too, and its counters are fixed windows. Decoded vectors are well formed, printed ones decode to
  themselves, answers are one per line. The sidecar's online score is the score of the subnet's whole
  sequence; with models that give numbers, back-off is bounded; a model that gives NaN switches scoring
  off; without the sequence model no score reaches the default block threshold; and the retraining job ignores every event the
  engine publishes. The block list
  and the API meet their contracts on maps of the size they expect; the block list's values do
  not fit the filter's map, and beside the loader the engine does not find that map at all. The filter never reads out of bounds and drops exactly the live entries;
  on little-endian machines the API stores addresses reversed, time-limited blocks are compared
  with the wrong clock, and a restart of the loader separates the filter from the map it manages. The
  stand-alone limiter refines a log of admitted requests and keeps the limit in every window.

  \<^bold>\<open>Bounds.\<close> No definition uses fuel; every function is total with a termination proof. Bucket theorems
  assume a capacity below \<open>2^52\<close> in magnitude, so that Lua's doubles hold it exactly, and a time to live
  between one second and \<open>10^10\<close> seconds, which every positive \<^verbatim>\<open>time.Duration\<close> of whole seconds meets. The
  stand-alone limiter is called with whole seconds below the same bound.

  \<^bold>\<open>Not modelled.\<close> Contexts are reduced to their deadline, timeouts of the HTTP server are configuration
  only, time limits of connecting and sending are outcomes of a call, a pooled connection is known by its age only,
  log output is dropped. The text of the JSON the loader answers is a parameter. The protobuf
  reflection code and descriptors are generated glue. Not covered are the set-up of the sidecar's gRPC and HTTP
  servers, shell scripts, SQL and deployment files.
\<close>

section \<open>The wired engine\<close>

lemma wired_score:
  assumes "server_main B env ping dial loadPinned = Inr (eng, bl)" "dial (MLSidecarAddr (Load env)) = Inr cn"
  shows "Score (e_ml eng) ctx0 fv =
     Returns (case Invoke cn (WithTimeout ctx0 callDeadline) MLScorer_Score_FullMethodName fv zero_response of
                Inl err \<Rightarrow> (Fin 0, [], Some err)
              | Inr r \<Rightarrow> (AnomalyScore r, ModelVersion r, None))"
proof -
  obtain c where c: "ml_New dial (MLSidecarAddr (Load env)) = Inr c" using assms(2) by (simp add: ml_New_def)
  then have "e_ml eng = Some c" using server_main_Inr(3) [OF assms(1)] by simp
  then show ?thesis using Score_dialled [OF c assms(2)] by simp
qed

lemma wired_scored:
  assumes "server_main B env ping dial loadPinned = Inr (eng, bl)" "dial (MLSidecarAddr (Load env)) = Inr cn"
  obtains ver serr where "Score (e_ml eng) ctx0 fv =
     Returns (case Invoke cn (WithTimeout ctx0 callDeadline) MLScorer_Score_FullMethodName fv zero_response of
                Inl err \<Rightarrow> Fin 0 | Inr resp \<Rightarrow> AnomalyScore resp, ver, serr)"
  using wired_score [OF assms, of ctx0 fv] that
  by (cases "Invoke cn (WithTimeout ctx0 callDeadline) MLScorer_Score_FullMethodName fv zero_response") auto

lemma wired_blocklist:
  "server_main B env ping dial loadPinned = Inr (eng, bl) \<Longrightarrow> fst (iface_Add (e_blocklist eng) ip m) \<noteq> Panics"
  using server_main_Inr(5) [of B env ping dial loadPinned eng bl] by simp

text \<open>What one answered call does to the kernel map.\<close>

lemma Evaluate_map:
  assumes "Evaluate R oob net now e ctx0 fv w = (Returns d, w')"
    and "fst (iface_Add (e_blocklist e) (GetClientIp fv) (w_map w)) \<noteq> Panics"
  shows "w_map w' = (if dec_Action d = ActionBlock then snd (iface_Add (e_blocklist e) (GetClientIp fv) (w_map w)) else w_map w)"
proof -
  have "e_ml e \<noteq> None" using assms(1) Evaluate_nil_ml [of e R oob net now ctx0 fv w] by auto
  then obtain score ver serr where sc: "Score (e_ml e) ctx0 fv = Returns (score, ver, serr)"
    using Score_panics_iff [of "e_ml e" ctx0 fv] by (metis outcome.exhaust prod_cases3)
  obtain rem err r where dec: "Decrement R oob net (e_redis e) (GetClientIp fv) (w_redis w) = ((rem, err), r)"
    by (metis prod.exhaust)
  from Evaluate_policy [OF dec sc assms(2)] assms(1) show ?thesis by (auto simp: aftermath_def)
qed

lemma default_client_eq: "\<lparr> bucketSize = BucketSize (Load Map.empty), bucketTTL = BucketTTL (Load Map.empty) \<rparr> = default_client"
  by (simp add: Load_def getEnvInt64_def Getenv_def Second_def default_client_def)

lemma default_brokers: "KafkaBrokers (Load Map.empty) = [''localhost:9092'']"
proof -
  have "trimmed ''localhost:9092''" by (simp add: trimmed_visible visible_def)
  then have "splitCSV (Join CHR '','' [''localhost:9092'']) = [''localhost:9092'']" by (intro splitCSV_Join) simp
  then show ?thesis by (simp add: Load_def getEnv_def Getenv_def)
qed

lemma sample_wiring:
  "server_main (lru_bpf True) Map.empty (\<lambda>a. None) sample_dial (\<lambda>p. Inr (MapHandle p)) =
     Inr (sample_engine (Fin (1 / 2)), open_blocklist)"
  using default_client_eq default_brokers
  by (simp add: server_main_def redis_New_def sample_engine_def engine_New_def ml_New_def sample_dial_def
      ebpf_New_def open_blocklist_def default_config_def Let_def)

lemma sample_dialled: "sample_dial addr = Inr (sample_conn (Fin (1 / 2)))"
  by (simp add: sample_dial_def)

subsection \<open>Properties\<close>

text \<open>
  C2. What the running engine does with a request. Wired as \<^verbatim>\<open>main\<close> does it, with a scoring
  client that was dialled, every call returns. It blocks when Redis answered that the bucket is
  exhausted or the score exceeds the block threshold, throttles when only the throttle threshold is
  exceeded, allows otherwise. A scoring error counts as score zero and a Redis error as a bucket
  that is not exhausted. It leaves Redis as the one script run left it, adds the address to the block
  list exactly when it blocks, and starts the goroutines for the notice (when it blocks)
  and the decision event.
\<close>

theorem engine_decision:
  fixes ctx0 :: ctx
  assumes "server_main B env ping dial loadPinned = Inr (eng, bl)" "dial (MLSidecarAddr (Load env)) = Inr cn"
    and "Decrement R oob net (e_redis eng) (GetClientIp fv) (w_redis w) = ((remaining, redisErr), r)"
  defines "score \<equiv> (case Invoke cn (WithTimeout ctx0 callDeadline) MLScorer_Score_FullMethodName fv zero_response of
        Inl err \<Rightarrow> Fin 0 | Inr resp \<Rightarrow> AnomalyScore resp)"
  defines "d \<equiv> (if redisErr = None \<and> remaining < 0 \<or> f_gt score (float32 (ScoreBlockThreshold (Load env)))
        then \<lparr> dec_Action = ActionBlock, dec_RetryAfter = 0 \<rparr>
        else if f_gt score (float32 (ScoreThrottleThreshold (Load env)))
        then \<lparr> dec_Action = ActionThrottle, dec_RetryAfter = max 1 (int_of_float oob (mul32 (mul32 score (Fin 2)) (Fin 60))) \<rparr>
        else \<lparr> dec_Action = ActionAllow, dec_RetryAfter = 0 \<rparr>)"
  shows "Evaluate R oob net now eng ctx0 fv w =
     (Returns d,
      \<lparr> w_redis = r,
        w_map = (if dec_Action d = ActionBlock then snd (Add B bl (GetClientIp fv) (w_map w)) else w_map w),
        w_tasks = w_tasks w @ (if dec_Action d = ActionBlock then [TaskBlocked (GetClientIp fv)] else []) @
          [TaskDecision (decision_event now fv score d)] \<rparr>)"
proof -
  obtain ver serr where sc: "Score (e_ml eng) ctx0 fv = Returns (score, ver, serr)"
    unfolding score_def by (rule wired_scored [OF assms(1,2)])
  have d: "d = policy oob (e_cfg eng) (redisErr = None \<and> remaining < 0) score"
    using server_main_Inr(1) [OF assms(1)] by (simp add: d_def policy_def backoff_def)
  show ?thesis
    using Evaluate_policy [OF assms(3) sc wired_blocklist [OF assms(1)], of now] server_main_Inr(5) [OF assms(1)]
    by (cases w) (auto simp: d aftermath_def blocklist_of_def)
qed

theorem engine_decision_witness:
  "\<exists>w'. Evaluate reference_redis no_oob (RequestLost ''timeout'') 7 (sample_engine (Fin (1 / 2))) Background sample_fv sample_world =
     (Returns \<lparr> dec_Action = ActionAllow, dec_RetryAfter = 0 \<rparr>, w')"
  using engine_decision [OF sample_wiring sample_dialled, of reference_redis no_oob "RequestLost ''timeout''" sample_fv sample_world 0
      "Some (TransportFailed ''timeout'')" empty_server 7 Background]
  unfolding default_config_def [symmetric] default_thresholds float32_thresholds
  by (simp add: Decrement_def sample_conn_def f_gt_def)

text \<open>
  C3. A client whose bucket is used up is blocked, whatever its score and settings; the refused
  request renews the life of the empty bucket and touches no other bucket.
\<close>

theorem exhausted_client_blocked:
  assumes "server_main B env ping dial loadPinned = Inr (eng, bl)" "dial (MLSidecarAddr (Load env)) = Inr cn"
    and "bucket_client R now entry tick oob (e_redis eng)" "buckets_ok entry (e_redis eng) (w_redis w)"
    and "buckets entry (w_redis w) (GetClientIp fv) = Some (n, x)" "n \<le> 0"
  shows "\<exists>w'. Evaluate R oob Delivered tm eng ctx0 fv w = (Returns \<lparr> dec_Action = ActionBlock, dec_RetryAfter = 0 \<rparr>, w') \<and>
     buckets entry (w_redis w') = (buckets entry (w_redis w))
       (GetClientIp fv \<mapsto> (n, now (w_redis w) + 1000 * ttl_arg oob (e_redis eng)))"
proof -
  obtain score ver serr where sc: "Score (e_ml eng) ctx0 fv = Returns (score, ver, serr)"
    by (rule wired_scored [OF assms(1,2)])
  show ?thesis
    using bucket_client.Evaluate_bucket [OF assms(3,4) refl sc wired_blocklist [OF assms(1)], of tm] assms(5,6)
    by (auto simp: policy_def)
qed

definition drained_world :: "(server, lru) world" where
  "drained_world = sample_world\<lparr> w_redis :=
     \<lparr> srv_clock = 0, srv_table = [bucket_key ''10.0.0.1'' \<mapsto> (show_int 0, Some 5000)] \<rparr> \<rparr>"

lemma drained_world_ok:
  "buckets_ok srv_table default_client (w_redis drained_world)"
  "buckets srv_table (w_redis drained_world) ''10.0.0.1'' = Some (0, 5000)"
  by (auto simp: drained_world_def buckets_ok_def bucket_ok_def buckets_def wf_tokens_def fits_int64_iff)

theorem exhausted_client_blocked_witness:
  "\<exists>w'. Evaluate reference_redis no_oob Delivered 7 (sample_engine (Fin (1 / 2))) Background sample_fv drained_world =
     (Returns \<lparr> dec_Action = ActionBlock, dec_RetryAfter = 0 \<rparr>, w')"
  using exhausted_client_blocked [OF sample_wiring sample_dialled, of reference_redis srv_clock srv_table srv_tick no_oob drained_world
      sample_fv 0 5000 7 Background] drained_world_ok default_bucket.bucket_client_axioms
  by auto

text \<open>
  C4. A request of a client with tokens left, whose score does not exceed the block threshold, is
  not blocked: it takes exactly one token (from a full bucket, when there was none), renews
  the bucket's life, and leaves all other buckets and the kernel map alone.
\<close>

theorem admitted_request_takes_token:
  assumes "server_main B env ping dial loadPinned = Inr (eng, bl)" "dial (MLSidecarAddr (Load env)) = Inr cn"
    and "bucket_client R now entry tick oob (e_redis eng)" "buckets_ok entry (e_redis eng) (w_redis w)"
    and "0 < tokens" "tokens = (case buckets entry (w_redis w) (GetClientIp fv) of None \<Rightarrow> cap (e_redis eng) | Some (n, x) \<Rightarrow> n)"
    and "Invoke cn (WithTimeout ctx0 callDeadline) MLScorer_Score_FullMethodName fv zero_response = Inr resp"
    and "\<not> f_gt (AnomalyScore resp) (float32 (ScoreBlockThreshold (Load env)))"
  shows "\<exists>d w'. Evaluate R oob Delivered tm eng ctx0 fv w = (Returns d, w') \<and> dec_Action d \<noteq> ActionBlock \<and> w_map w' = w_map w \<and>
     buckets entry (w_redis w') = (buckets entry (w_redis w))
       (GetClientIp fv \<mapsto> (tokens - 1, now (w_redis w) + 1000 * ttl_arg oob (e_redis eng)))"
proof -
  have sc: "Score (e_ml eng) ctx0 fv = Returns (AnomalyScore resp, ModelVersion resp, None)"
    unfolding wired_score [OF assms(1,2)] by (simp add: assms(7))
  let ?sp = "spec_decrement (cap (e_redis eng)) (ttl_arg oob (e_redis eng)) (now (w_redis w))
      (buckets entry (w_redis w) (GetClientIp fv))"
  have sp: "?sp = (tokens - 1, Some (tokens - 1, now (w_redis w) + 1000 * ttl_arg oob (e_redis eng)))"
    using assms(5,6) by (auto split: option.splits prod.splits)
  let ?d = "policy oob (e_cfg eng) (fst ?sp < 0) (AnomalyScore resp)"
  have "dec_Action ?d \<noteq> ActionBlock"
    using sp assms(5,8) server_main_Inr(1) [OF assms(1)] by (simp add: policy_Action)
  then show ?thesis
    using bucket_client.Evaluate_bucket [OF assms(3,4) refl sc wired_blocklist [OF assms(1)], of tm] sp by auto
qed

theorem admitted_request_takes_token_witness:
  "\<exists>d w'. Evaluate reference_redis no_oob Delivered 7 (sample_engine (Fin (1 / 2))) Background sample_fv sample_world = (Returns d, w') \<and>
     dec_Action d \<noteq> ActionBlock \<and> w_map w' = w_map sample_world \<and>
     buckets srv_table (w_redis w') = (buckets srv_table empty_server)(''10.0.0.1'' \<mapsto> (100 - 1, srv_clock empty_server + 1000 * 60))"
proof -
  have thr: "\<not> f_gt (Fin (1 / 2)) (float32 (ScoreBlockThreshold (Load Map.empty)))"
    unfolding default_config_def [symmetric] default_thresholds float32_thresholds by (simp add: f_gt_def)
  have "\<exists>d w'. Evaluate reference_redis no_oob Delivered 7 (sample_engine (Fin (1 / 2))) Background sample_fv sample_world = (Returns d, w') \<and>
     dec_Action d \<noteq> ActionBlock \<and> w_map w' = w_map sample_world \<and>
     buckets srv_table (w_redis w') = (buckets srv_table (w_redis sample_world))
       (GetClientIp sample_fv \<mapsto> (100 - 1, srv_clock (w_redis sample_world) + 1000 * ttl_arg no_oob (e_redis (sample_engine (Fin (1 / 2))))))"
  proof (rule admitted_request_takes_token [OF sample_wiring sample_dialled])
    show "bucket_client reference_redis srv_clock srv_table srv_tick no_oob (e_redis (sample_engine (Fin (1 / 2))))"
      using default_bucket.bucket_client_axioms by simp
    show "Invoke (sample_conn (Fin (1 / 2))) (WithTimeout Background callDeadline) MLScorer_Score_FullMethodName sample_fv zero_response =
        Inr \<lparr> AnomalyScore = Fin (1 / 2), ModelVersion = ''v1'' \<rparr>"
      by (simp add: sample_conn_def)
    show "\<not> f_gt (AnomalyScore \<lparr> AnomalyScore = Fin (1 / 2), ModelVersion = ''v1'' \<rparr>) (float32 (ScoreBlockThreshold (Load Map.empty)))"
      using thr by (simp only: ScoreResponse.select_convs) simp
  qed simp_all
  then show ?thesis by (simp only: sample_sel default_ttl)
qed

text \<open>
  C9. Wired as \<^verbatim>\<open>main\<close> does it, a call panics exactly when the scoring client could not be dialled:
  \<^verbatim>\<open>main\<close> goes on with a nil client, and every request then dereferences it, after its token was taken.
\<close>

theorem panics_iff_no_scorer:
  assumes "server_main B env ping dial loadPinned = Inr (eng, bl)"
  shows "fst (Evaluate R oob net now eng ctx0 fv w) = Panics \<longleftrightarrow> (\<exists>err. dial (MLSidecarAddr (Load env)) = Inl err)"
proof -
  have "e_ml eng = None \<longleftrightarrow> (\<exists>err. dial (MLSidecarAddr (Load env)) = Inl err)"
    using server_main_Inr(3) [OF assms] by (simp add: ml_New_def split: sum.splits)
  then show ?thesis using wired_Evaluate_total [OF server_main_Inr(5) [OF assms]] by simp
qed

theorem panics_iff_no_scorer_witness:
  "(fst (Evaluate reference_redis no_oob Delivered 7 (sample_engine (Fin (1 / 2))) Background sample_fv sample_world) = Panics) =
     (\<exists>err. sample_dial (MLSidecarAddr (Load Map.empty)) = Inl err)"
  by (rule panics_iff_no_scorer [OF sample_wiring])

text \<open>
  C10. The engine fails open: when the Redis call fails, on the way or in the script, the decision rests on the
  score alone; when scoring fails too, the request is allowed, unless a threshold is negative.
\<close>

theorem fails_open:
  assumes "server_main B env ping dial loadPinned = Inr (eng, bl)" "dial (MLSidecarAddr (Load env)) = Inr cn"
    and "Decrement R oob net (e_redis eng) (GetClientIp fv) (w_redis w) = ((remaining, Some err), r)"
    and "Invoke cn (WithTimeout ctx0 callDeadline) MLScorer_Score_FullMethodName fv zero_response = Inl serr"
    and "\<not> f_neg (float32 (ScoreBlockThreshold (Load env)))" "\<not> f_neg (float32 (ScoreThrottleThreshold (Load env)))"
  shows "fst (Evaluate R oob net now eng ctx0 fv w) = Returns \<lparr> dec_Action = ActionAllow, dec_RetryAfter = 0 \<rparr>"
proof -
  have sc: "Score (e_ml eng) ctx0 fv = Returns (Fin 0, [], Some serr)"
    unfolding wired_score [OF assms(1,2)] by (simp add: assms(4))
  show ?thesis
    using Evaluate_policy [OF assms(3) sc wired_blocklist [OF assms(1)]] assms(5,6) server_main_Inr(1) [OF assms(1)]
    by (simp add: policy_def f_gt_Fin_0_iff)
qed

definition deaf_conn :: "string ClientConn" where
  "deaf_conn = \<lparr> Invoke = (\<lambda>ctx0 method fv out. Inl ''deadline exceeded''), conn_Close = None \<rparr>"

theorem fails_open_witness:
  "\<exists>eng bl. server_main (lru_bpf True) Map.empty (\<lambda>a. None) (\<lambda>a. Inr deaf_conn) (\<lambda>p. Inr (MapHandle p)) = Inr (eng, bl) \<and>
     fst (Evaluate reference_redis no_oob (ReplyLost ''timeout'') 7 eng Background sample_fv sample_world) =
       Returns \<lparr> dec_Action = ActionAllow, dec_RetryAfter = 0 \<rparr>"
proof -
  obtain eng bl where m: "server_main (lru_bpf True) Map.empty (\<lambda>a. None) (\<lambda>a. Inr deaf_conn) (\<lambda>p. Inr (MapHandle p)) = Inr (eng, bl)"
    by (simp add: server_main_def redis_New_def Let_def)
  obtain r where d: "Decrement reference_redis no_oob (ReplyLost ''timeout'') (e_redis eng) (GetClientIp sample_fv) (w_redis sample_world) =
      ((0, Some (TransportFailed ''timeout'')), r)"
    by (simp add: Decrement_def)
  have "fst (Evaluate reference_redis no_oob (ReplyLost ''timeout'') 7 eng Background sample_fv sample_world) =
      Returns \<lparr> dec_Action = ActionAllow, dec_RetryAfter = 0 \<rparr>"
  proof (rule fails_open [OF m refl d])
    show "Invoke deaf_conn (WithTimeout Background callDeadline) MLScorer_Score_FullMethodName sample_fv zero_response =
        Inl ''deadline exceeded''" by (simp add: deaf_conn_def)
    show "\<not> f_neg (float32 (ScoreBlockThreshold (Load Map.empty)))" "\<not> f_neg (float32 (ScoreThrottleThreshold (Load Map.empty)))"
      unfolding default_config_def [symmetric] default_thresholds float32_thresholds by (simp_all add: f_neg_def)
  qed
  with m show ?thesis by blast
qed





text \<open>
  The bucket settings arrive in the script as they were written: a decimal \<^verbatim>\<open>BUCKET_SIZE\<close> is the capacity and
  a decimal \<^verbatim>\<open>BUCKET_TTL_SECONDS\<close>, on its way through nanoseconds and a float, the time to live.
\<close>

lemma bucket_settings_reach_script:
  assumes "server_main B env ping dial loadPinned = Inr (eng, bl)"
    and "env ''BUCKET_SIZE'' = Some (show_int n)" "fits_int64 n"
    and "env ''BUCKET_TTL_SECONDS'' = Some (show_int t)" "\<bar>t\<bar> \<le> 9223372036"
  shows "cap (e_redis eng) = n \<and> ttl_arg oob (e_redis eng) = t"
proof
  have "BucketSize (Load env) = of_int n" using getEnvInt64_show [of env "''BUCKET_SIZE''" n 100] assms(2,3) by (simp add: Load_def)
  then show "cap (e_redis eng) = n" using server_main_Inr(2) [OF assms(1)] assms(3) by (simp add: cap_def)
  show "ttl_arg oob (e_redis eng) = t"
    using Seconds_whole [of "BucketTTL (Load env)" t] BucketTTL_nanoseconds [of env t] assms(4,5) server_main_Inr(2) [OF assms(1)]
    by (simp add: ttl_arg_def)
qed

section \<open>The management API and the packet filter\<close>

text \<open>
  C34. On a big-endian machine, after \<^verbatim>\<open>POST /block\<close> of an IPv4 address without time to live, every
  IPv4 packet from that address is dropped, at any time.
\<close>

theorem blocked_address_dropped:
  assumes "bpf_map B False lookup key_size value_size ok" "loader_map key_size value_size ok m"
    and "decode_block_request reqBody = Inr req" "ipToUint32 (req_IP req) = Returns (Inr k)" "sint (req_TTLSeconds req) \<le> 0"
  shows "\<exists>r m'. serve B False show_json show_ip show_map now ''POST'' ''/block'' reqBody m = (Returns r, m') \<and> status r = StatusCreated \<and>
     (\<forall>ktime data. from_ipv4 (PutUint32 k) data \<longrightarrow> tc_ingress_blocker False (lookup m') ktime data = Returns TC_ACT_SHOT)"
proof -
  obtain m' where m': "handleAddBlock B show_json show_ip show_map now reqBody m =
        (Returns (c_JSON StatusCreated (JObj [(''ip'', JStr (req_IP req)), (''status'', JStr ''blocked'')])), m')"
      "blocked_until False lookup m' k = Some (expiry_of now (req_TTLSeconds req))"
    using bpf_map.add_block [OF assms(1,2,4,3)] by blast
  then obtain v where "lookup m' (PutUint32 k) = Some v" "u64_of False v = 0"
    using assms(5) by (auto simp: blocked_until_def native_def expiry_of_def)
  then show ?thesis using m'(1) by (auto simp: serve_block tc_from_ipv4)
qed

theorem blocked_address_dropped_witness:
  "\<exists>r m'. serve (lru_bpf False) False (\<lambda>_. []) (\<lambda>_. []) (\<lambda>_. []) 1700000000 ''POST'' ''/block'' (sample_body 0) (new_lru 100000 4 8) =
       (Returns r, m') \<and> status r = StatusCreated \<and>
     tc_ingress_blocker False (lru_lookup m') 5 (replicate 12 0 @ [8, 0] @ replicate 12 0 @ PutUint32 0x0A000001 @ replicate 4 0) =
       Returns TC_ACT_SHOT"
proof -
  let ?p = "replicate 12 0 @ [8, 0] @ replicate 12 0 @ PutUint32 0x0A000001 @ replicate 4 0"
  have "from_ipv4 (PutUint32 0x0A000001) ?p" by (simp add: from_ipv4_def ETH_P_IP_def)
  then show ?thesis
    using blocked_address_dropped [where B = "lru_bpf False" and m = "new_lru 100000 4 8" and req = "sample_request 0" and reqBody = "sample_body 0"
        and k = "0x0A000001" and now = 1700000000 and show_json = "\<lambda>_. []" and show_ip = "\<lambda>_. []" and show_map = "\<lambda>_. []", OF lru.bpf_map_axioms]
    by auto
qed

text \<open>
  C35. On a little-endian machine the key is stored byte-reversed: after \<^verbatim>\<open>POST /block\<close> of an address whose
  bytes do not read the same backwards and that was not in the map, packets from that address pass,
  and packets from the reversed address are dropped.
\<close>

theorem little_endian_blocks_reversed:
  assumes "bpf_map B True lookup key_size value_size ok" "loader_map key_size value_size ok m"
    and "decode_block_request reqBody = Inr req" "ipToUint32 (req_IP req) = Returns (Inr k)" "sint (req_TTLSeconds req) \<le> 0"
    and "rev (PutUint32 k) \<noteq> PutUint32 k" "lookup m (PutUint32 k) = None"
  shows "\<exists>r m'. serve B True show_json show_ip show_map now ''POST'' ''/block'' reqBody m = (Returns r, m') \<and> status r = StatusCreated \<and>
     (\<forall>ktime data. from_ipv4 (PutUint32 k) data \<longrightarrow> tc_ingress_blocker True (lookup m') ktime data = Returns TC_ACT_OK) \<and>
     (\<forall>ktime data. from_ipv4 (rev (PutUint32 k)) data \<longrightarrow> tc_ingress_blocker True (lookup m') ktime data = Returns TC_ACT_SHOT)"
proof -
  obtain m' where m': "handleAddBlock B show_json show_ip show_map now reqBody m =
        (Returns (c_JSON StatusCreated (JObj [(''ip'', JStr (req_IP req)), (''status'', JStr ''blocked'')])), m')"
      "blocked_until True lookup m' k = Some (expiry_of now (req_TTLSeconds req))"
    using bpf_map.add_block [OF assms(1,2,4,3)] by blast
  then obtain v where v: "lookup m' (rev (PutUint32 k)) = Some v" "u64_of True v = 0"
    using assms(5) by (auto simp: blocked_until_def native_def expiry_of_def)
  have "lookup m' (PutUint32 k) = None"
    using bpf_map.add_block_other [OF assms(1) m'(1) assms(2,4,3), of "PutUint32 k"] assms(6,7) by (auto simp: native_def)
  with v m'(1) show ?thesis by (auto simp: serve_block tc_from_ipv4)
qed

theorem little_endian_blocks_reversed_witness:
  "\<exists>r m'. serve (lru_bpf True) True (\<lambda>_. []) (\<lambda>_. []) (\<lambda>_. []) 1700000000 ''POST'' ''/block'' (sample_body 0) (new_lru 100000 4 8) =
       (Returns r, m') \<and> status r = StatusCreated \<and>
     tc_ingress_blocker True (lru_lookup m') 5 (replicate 12 0 @ [8, 0] @ replicate 12 0 @ PutUint32 0x0A000001 @ replicate 4 0) =
       Returns TC_ACT_OK"
proof -
  let ?p = "replicate 12 0 @ [8, 0] @ replicate 12 0 @ PutUint32 0x0A000001 @ replicate 4 0"
  have "from_ipv4 (PutUint32 0x0A000001) ?p" by (simp add: from_ipv4_def ETH_P_IP_def)
  moreover have "rev (PutUint32 0x0A000001) \<noteq> PutUint32 0x0A000001" by code_simp
  ultimately show ?thesis
    using little_endian_blocks_reversed [where B = "lru_bpf True" and m = "new_lru 100000 4 8" and req = "sample_request 0" and reqBody = "sample_body 0"
        and k = "0x0A000001" and now = 1700000000 and show_json = "\<lambda>_. []" and show_ip = "\<lambda>_. []" and show_map = "\<lambda>_. []", OF lru.bpf_map_axioms]
    by auto
qed

text \<open>
  C36. A block with a time to live does not end when it should: the expiry is a calendar time, the
  filter compares it with the uptime. As long as the machine has been up for no longer than
  the calendar time of the request, packets with the stored source bytes are dropped.
\<close>

theorem block_outlives_ttl:
  assumes "bpf_map B little lookup key_size value_size ok" "loader_map key_size value_size ok m"
    and "decode_block_request reqBody = Inr req" "ipToUint32 (req_IP req) = Returns (Inr k)" "0 < sint (req_TTLSeconds req)"
    and "0 \<le> sint now" "fits_int64 (sint now + sint (req_TTLSeconds req))"
  shows "\<exists>r m'. serve B little show_json show_ip show_map now ''POST'' ''/block'' reqBody m = (Returns r, m') \<and> status r = StatusCreated \<and>
     (\<forall>ktime data. uint ktime div 1000000000 \<le> sint now \<longrightarrow> from_ipv4 (native little (PutUint32 k)) data \<longrightarrow>
        tc_ingress_blocker little (lookup m') ktime data = Returns TC_ACT_SHOT)"
proof -
  obtain m' where m': "handleAddBlock B show_json show_ip show_map now reqBody m =
        (Returns (c_JSON StatusCreated (JObj [(''ip'', JStr (req_IP req)), (''status'', JStr ''blocked'')])), m')"
      "blocked_until little lookup m' k = Some (expiry_of now (req_TTLSeconds req))"
    using bpf_map.add_block [OF assms(1,2,4,3)] by blast
  then obtain v where v: "lookup m' (native little (PutUint32 k)) = Some v" "u64_of little v = now + req_TTLSeconds req"
    using assms(5) by (auto simp: blocked_until_def expiry_of_def)
  have "ktime div 1000000000 < now + req_TTLSeconds req" if "uint ktime div 1000000000 \<le> sint now" for ktime :: uint64
  proof -
    have s: "sint (now + req_TTLSeconds req) = sint now + sint (req_TTLSeconds req)" by (rule sint_add_int64 [OF assms(7)])
    have "uint (now + req_TTLSeconds req) = sint (now + req_TTLSeconds req)"
      using s assms(5,6) by (intro uint_of_nonneg) simp
    then show ?thesis using that s assms(5) by (simp add: word_less_def uint_div)
  qed
  with v m'(1) show ?thesis by (auto simp: serve_block tc_from_ipv4)
qed

theorem block_outlives_ttl_witness:
  "\<exists>r m'. serve (lru_bpf True) True (\<lambda>_. []) (\<lambda>_. []) (\<lambda>_. []) 1700000000 ''POST'' ''/block'' (sample_body 60) (new_lru 100000 4 8) =
       (Returns r, m') \<and> status r = StatusCreated \<and>
     tc_ingress_blocker True (lru_lookup m') 86400000000000
       (replicate 12 0 @ [8, 0] @ replicate 12 0 @ native True (PutUint32 0x0A000001) @ replicate 4 0) = Returns TC_ACT_SHOT"
proof -
  let ?p = "replicate 12 0 @ [8, 0] @ replicate 12 0 @ native True (PutUint32 0x0A000001) @ replicate 4 0"
  have "from_ipv4 (native True (PutUint32 0x0A000001)) ?p" by (simp add: from_ipv4_def ETH_P_IP_def)
  then show ?thesis
    using block_outlives_ttl [where B = "lru_bpf True" and little = True and m = "new_lru 100000 4 8" and req = "sample_request 60" and reqBody = "sample_body 60"
        and k = "0x0A000001" and now = 1700000000 and show_json = "\<lambda>_. []" and show_ip = "\<lambda>_. []" and show_map = "\<lambda>_. []", OF lru.bpf_map_axioms]
    by (auto simp: fits_int64_iff)
qed

section \<open>From the client's request to the client's answer\<close>


definition sample_md5 :: "jvalue \<Rightarrow> string" where
  "sample_md5 v = ''d41d8cd98f00b204e9800998ecf8427e''"

definition sample_ngx :: ngx_request where
  "sample_ngx = \<lparr> remote_addr = Some ''10.0.0.1'', http_x_ja3_hash = None, ssl_ja3_hash = None, ngx_headers = [(''host'', VStr ''a'')],
     request_method = Some ''GET'', ngx_uri = Some ''/'', server_protocol = Some ''HTTP/1.1'', ngx_time = 1700000000 \<rparr>"

definition sample_vector :: lua_vector where
  "sample_vector = build_vector sample_md5 ref_tonumber reference_dict sample_ngx (snd (increment reference_dict ''10.0.0.1'' empty_dict))"

lemma sample_rates: "get_rates reference_dict ''10.0.0.1'' (snd (increment reference_dict ''10.0.0.1'' empty_dict)) =
    \<lparr> req_rate_1s = 1, req_rate_10s = 1, req_rate_60s = 1 \<rparr>"
  by (simp add: get_rates_def increment_def WINDOWS_def rates_of_def reference_dict_def nd_incr_def counter_key_def empty_dict_def)

lemma sample_vector_eq: "sample_vector =
    \<lparr> lv_client_ip = ''10.0.0.1'', lv_ja3_hash = ''none'', lv_user_agent_hash = ''d41d8cd98f00b204e9800998ecf8427e'',
      lv_rates = \<lparr> req_rate_1s = 1, req_rate_10s = 1, req_rate_60s = 1 \<rparr>, lv_http_method = ''GET'',
      lv_uri_hash = ''d41d8cd98f00b204e9800998ecf8427e'', lv_content_length = Fin 0, lv_header_count = 1, lv_is_http2 = 0,
      lv_unix_timestamp = 1700000000 \<rparr>"
  by (simp add: sample_vector_def build_vector_def sample_ngx_def sample_md5_def sample_rates ref_tonumber_def)

lemma sample_vector_plain: "plain_vector sample_vector"
  by (simp add: sample_vector_eq plain_vector_def exact_number_def valid_utf8_all_ascii in_range_def trunc_def)


lemma length_escape_text: "length (escape_text s) \<le> 6 * length s"
  by (induction s) (auto simp: escape_text_def json_escape_def)

lemma sample_line_short: "ref_encode sample_vector = Some t \<Longrightarrow> length t < 65536"
  using length_escape_text [of "''client_ip''"] length_escape_text [of "''ja3_hash''"] length_escape_text [of "''user_agent_hash''"]
    length_escape_text [of "''req_rate_1s''"] length_escape_text [of "''req_rate_10s''"] length_escape_text [of "''req_rate_60s''"]
    length_escape_text [of "''http_method''"] length_escape_text [of "''uri_hash''"] length_escape_text [of "''content_length''"]
    length_escape_text [of "''header_count''"] length_escape_text [of "''is_http2''"] length_escape_text [of "''unix_timestamp''"]
    length_escape_text [of "''10.0.0.1''"] length_escape_text [of "''none''"] length_escape_text [of "''d41d8cd98f00b204e9800998ecf8427e''"]
    length_escape_text [of "''GET''"] length_show_int64 [of 1] length_show_int64 [of "sint (0 :: int64)"] length_show_int64 [of "sint (1 :: int32)"]
    length_show_int64 [of "sint (0 :: int32)"] length_show_int64 [of "sint (1700000000 :: int64)"]
  by (auto simp: ref_encode_def vector_members_def feature_members_def vector_features_def sample_vector_eq quote_text_def trunc_def fits_int64_iff)

lemma sample_evaluates:
  obtains dn w' where "Evaluate reference_redis no_oob Delivered 7 (sample_engine (Fin (1 / 2))) Background (Some (vector_features sample_vector)) drained_world =
     (Returns dn, w')"
proof -
  have "fst (Evaluate reference_redis no_oob Delivered 7 (sample_engine (Fin (1 / 2))) Background (Some (vector_features sample_vector)) drained_world) \<noteq> Panics"
    using wired_Evaluate_total [OF server_main_Inr(5) [OF sample_wiring]] by simp
  then show ?thesis using that by (metis outcome.exhaust prod.collapse)
qed


text \<open>
  The limit as the client sees it: a request of a client whose bucket is used up is answered with 403 by nginx,
  whatever the anomaly score and the thresholds are.
\<close>

lemma exhausted_client_gets_403:
  assumes "server_main B env ping dial loadPinned = Inr (eng, bl)" "dial (MLSidecarAddr (Load env)) = Inr cn"
    and "bucket_client R now entry tick oob (e_redis eng)" "buckets_ok entry (e_redis eng) (w_redis w)"
    and "buckets entry (w_redis w) ip = Some (n, x)" "n \<le> 0"
    and "cjson cjson_encode cjson_decode tonumber" "remote_addr req = Some ip" "circ 0 = (Delivered, tm)"
    and "vec = build_vector md5 tonumber D req (snd (increment D ip d))" "plain_vector vec"
    and "\<And>t. cjson_encode vec = Some t \<Longrightarrow> length t < 65536"
  shows "fst (access md5 tonumber cjson_encode cjson_decode D (engine_sock R oob circ eng w) req d) = Exit 403 None"
proof -
  have ip: "GetClientIp (Some (vector_features vec)) = ip"
    using assms(8,10) by (simp add: vector_features_def build_vector_def Let_def)
  obtain score ver serr where sc: "Score (e_ml eng) Background (Some (vector_features vec)) = Returns (score, ver, serr)"
    by (rule wired_scored [OF assms(1,2)])
  obtain w' where "Evaluate R oob Delivered tm eng Background (Some (vector_features vec)) w =
      (Returns \<lparr> dec_Action = ActionBlock, dec_RetryAfter = 0 \<rparr>, w')"
    using bucket_client.Evaluate_bucket [OF assms(3,4) refl sc wired_blocklist [OF assms(1)], of tm] assms(5,6) ip
    by (auto simp: policy_def)
  then have "ngx_evaluate md5 tonumber cjson_encode cjson_decode D (engine_sock R oob circ eng w) req (snd (increment D ip d)) =
      enforced \<lparr> dec_Action = ActionBlock, dec_RetryAfter = 0 \<rparr>"
    using cjson.evaluate_decision [where circ = circ, OF assms(7), of md5 D req "snd (increment D ip d)" Delivered tm R oob eng w _ w'] assms(9-12)
    by simp
  then show ?thesis by (simp add: access_evaluates [OF assms(8)] enforced_def)
qed


definition sample_front :: "ndict front" where
  "sample_front = \<lparr> fr_md5 = sample_md5, fr_tonumber = ref_tonumber, fr_encode = ref_encode, fr_decode = ref_decode,
     fr_dict = reference_dict, fr_tick = nd_tick \<rparr>"

lemma sample_hit: "hit_vector sample_front sample_ngx empty_dict = sample_vector"
  by (simp add: hit_vector_def sample_front_def sample_vector_def) (simp add: sample_ngx_def)


text \<open>
  C13. Nginx fails open and keeps counting: when the engine cannot be reached, closes the connection, times out or
  answers something that is not JSON, the request is passed on; its counters are bumped all the same.
\<close>

theorem access_fails_open:
  assumes "remote_addr req = Some ip"
    and "\<And>payload. (\<exists>err. query_engine sk payload = Inl err) \<or> (\<exists>line. query_engine sk payload = Inr line \<and> cjson_decode line = None)"
  shows "access md5 tonumber cjson_encode cjson_decode D sk req d = (PassOn, snd (increment D ip d))"
proof -
  have "ngx_evaluate md5 tonumber cjson_encode cjson_decode D sk req (snd (increment D ip d)) = PassOn"
    using assms(2) by (auto simp: ngx_evaluate_def split: option.splits sum.splits) (metis Inl_Inr_False option.distinct(1) sum.inject(2))+
  then show ?thesis by (simp add: access_evaluates [OF assms(1)])
qed

theorem access_fails_open_witness:
  "access sample_md5 ref_tonumber ref_encode ref_decode reference_dict
     \<lparr> sk_connect = (\<lambda>p. Some ''timeout''), sk_send = (\<lambda>b. None), sk_receive = (\<lambda>s. Inl ''closed'') \<rparr> sample_ngx empty_dict =
     (PassOn, snd (increment reference_dict ''10.0.0.1'' empty_dict))"
  by (rule access_fails_open) (simp_all add: sample_ngx_def query_engine_def)


text \<open>
  C26. A decision counts only when it comes in time. Nginx enforces it when the engine took less than 50 ms and was
  done before the connection, which may come from the pool, was 200 ms old; otherwise the request is passed on, even
  one that was to be blocked. The engine's work is done all the same whenever it could still read the line: the token is taken, the
  address blocked and the events started, although the scoring call alone may use 100 ms.
\<close>

theorem late_decision_not_enforced:
  assumes "cjson cjson_encode cjson_decode tonumber" "remote_addr req = Some ip"
    and "vec = build_vector md5 tonumber D req (snd (increment D ip d))" "plain_vector vec"
    and "cjson_encode vec = Some t" "length t < 65536" "circ 0 = (net, now)"
    and "Evaluate R oob net now eng Background (Some (vector_features vec)) w = (Returns dn, w')"
  shows "fst (access md5 tonumber cjson_encode cjson_decode D (timed_sock R oob circ eng age takes w) req d) =
       (if takes < 50 \<and> age + takes < 200
        then case dec_Action dn of ActionAllow \<Rightarrow> PassOn | ActionBlock \<Rightarrow> Exit 403 None
             | ActionThrottle \<Rightarrow> Exit 429 (Some (f64_of_int (dec_RetryAfter dn)))
        else PassOn) \<and>
     (\<exists>out. timed_conn R oob circ eng [\<lparr> x_line = t, x_arrival = Reads age, x_takes = takes \<rparr>] w =
        Returns (out, if age < 200 then w' else w))"
proof
  have "ngx_evaluate md5 tonumber cjson_encode cjson_decode D (timed_sock R oob circ eng age takes w) req (snd (increment D ip d)) =
      (if takes < READ_TIMEOUT \<and> age + takes < conn_deadline then enforced dn else PassOn)"
    using assms(4-8) by (intro cjson.evaluate_timed [where circ = circ and net = net and now = now and w' = w', OF assms(1)]) (simp_all add: assms(3))
  then show "fst (access md5 tonumber cjson_encode cjson_decode D (timed_sock R oob circ eng age takes w) req d) =
       (if takes < 50 \<and> age + takes < 200
        then case dec_Action dn of ActionAllow \<Rightarrow> PassOn | ActionBlock \<Rightarrow> Exit 403 None
             | ActionThrottle \<Rightarrow> Exit 429 (Some (f64_of_int (dec_RetryAfter dn)))
        else PassOn)"
    by (simp add: access_evaluates [OF assms(2)] READ_TIMEOUT_def conn_deadline_def enforced_def split: Action.splits)
  have "unmarshal_features t = Inr (vector_features vec)"
    using cjson.encoded_features [OF assms(1,4)] assms(5) by auto
  from timed_conn_one [where circ = circ, OF this assms(7,8), of age takes]
  show "\<exists>out. timed_conn R oob circ eng [\<lparr> x_line = t, x_arrival = Reads age, x_takes = takes \<rparr>] w =
        Returns (out, if age < 200 then w' else w)" by (simp add: conn_deadline_def)
qed

theorem late_decision_not_enforced_witness:
  "\<exists>t dn w' out. Evaluate reference_redis no_oob Delivered 7 (sample_engine (Fin (1 / 2))) Background (Some (vector_features sample_vector)) drained_world =
       (Returns dn, w') \<and>
     fst (access sample_md5 ref_tonumber ref_encode ref_decode reference_dict
        (timed_sock reference_redis no_oob (\<lambda>i. (Delivered, 7)) (sample_engine (Fin (1 / 2))) 0 60 drained_world) sample_ngx empty_dict) = PassOn \<and>
     timed_conn reference_redis no_oob (\<lambda>i. (Delivered, 7)) (sample_engine (Fin (1 / 2)))
       [\<lparr> x_line = t, x_arrival = Reads 0, x_takes = 60 \<rparr>] drained_world = Returns (out, w')"
proof -
  obtain dn w' where ev: "Evaluate reference_redis no_oob Delivered 7 (sample_engine (Fin (1 / 2))) Background
      (Some (vector_features sample_vector)) drained_world = (Returns dn, w')"
    by (rule sample_evaluates)
  obtain t where t: "ref_encode sample_vector = Some t" using sample_vector_plain by (rule ref.encoded_features)
  show ?thesis
    using late_decision_not_enforced [where circ = "\<lambda>i. (Delivered, 7)" and age = 0 and takes = 60, OF ref.cjson_axioms _ sample_vector_def
        sample_vector_plain t sample_line_short [OF t] _ ev] ev
    by (auto simp: sample_ngx_def)
qed


text \<open>
  C29. The block list is open to the public. Nginx hands every path but two to the engine's HTTP server, the management routes
  included: whoever is allowed one request can send \<^verbatim>\<open>DELETE /block/...\<close> through it and unblock any address, with the answer 200.
\<close>

theorem anyone_can_unblock:
  assumes "server_main B env ping dial loadPinned = Inr (eng, bl)" "h_bpf H = B" "h_list H = bl"
    and "ebpf_blocklist B little lookup key_size value_size ok bl" "words_map key_size value_size ok (w_map w)"
    and "ip_blocked lookup (w_map w) victim" "CHR ''/'' \<notin> set victim" "victim \<noteq> []"
    and "cjson (fr_encode F) (fr_decode F) (fr_tonumber F)" "remote_addr req = Some ip" "plain_vector (hit_vector F req d)"
    and "\<And>t. fr_encode F (hit_vector F req d) = Some t \<Longrightarrow> length t < 65536"
    and "Evaluate R oob net tm eng Background (Some (vector_features (hit_vector F req d))) w = (Returns dn, w')" "dec_Action dn = ActionAllow"
  shows "\<exists>d' w''. gateway R oob F eng H metrics no_route net tm
       \<lparr> wr_method = ''DELETE'', wr_path = ''/block/'' @ victim, wr_body = reqBody, wr_ngx = req \<rparr> d w = (200, d', w'') \<and>
     \<not> ip_blocked lookup (w_map w'') victim"
proof -
  have short: "case fr_encode F (hit_vector F req d) of None \<Rightarrow> True | Some t \<Rightarrow> length t < 65536" using assms(12) by (simp split: option.splits)
  note hit = hit_evaluated [OF assms(9,10,11) short assms(13)]
  obtain d' where v: "hit_answer R oob F eng req net tm d w = (PassOn, d')"
    using hit(1) assms(14) by (cases "hit_answer R oob F eng req net tm d w") (simp add: enforced_def)
  have m: "w_map w' = w_map w" using Evaluate_map [OF assms(13) wired_blocklist [OF assms(1)]] assms(14) by simp
  have u: "fst (Remove B bl victim (w_map w)) = Returns None" "\<not> ip_blocked lookup (snd (Remove B bl victim (w_map w))) victim"
    using ebpf_blocklist.Remove_unblocks [OF assms(4,5,6)] by simp_all
  have "engine_http H metrics no_route ''DELETE'' (''/block/'' @ victim) reqBody (w_map w) =
      (Returns (c_JSON StatusOK (JObj [(''unblocked'', JStr victim)])), snd (Remove B bl victim (w_map w)))"
    using u(1) by (cases "Remove B bl victim (w_map w)") (simp add: engine_http_def route_unblock [OF assms(7,8), simplified] handleUnblock_def assms(2,3))
  moreover have "location_of (''/block/'' @ victim) = LocProxy" by (simp add: location_of_def)
  ultimately show ?thesis using u(2) by (simp add: gateway_def v hit(2) m)
qed

definition blocking_world :: "(server, lru) world" where
  "blocking_world = sample_world\<lparr> w_map := snd (Add (lru_bpf True) open_blocklist ''10.9.9.9'' (new_lru 16 4 4)) \<rparr>"

lemma blocking_world_ok:
  "words_map lru_key lru_value lru_ok (w_map blocking_world)" "ip_blocked lru_lookup (w_map blocking_world) ''10.9.9.9''"
proof -
  have "valid_ip ''10.9.9.9''" by code_simp
  then show "words_map lru_key lru_value lru_ok (w_map blocking_world)" "ip_blocked lru_lookup (w_map blocking_world) ''10.9.9.9''"
    using lru_blocklist.Add_blocks [of "new_lru 16 4 4" "''10.9.9.9''" True] lru_blocklist.words_map_Add [of "new_lru 16 4 4" True "''10.9.9.9''"]
    by (simp_all add: blocking_world_def words_map_def)
qed

lemma sample_allowed:
  obtains dn w' where "Evaluate reference_redis no_oob Delivered 7 (sample_engine (Fin (1 / 2))) Background (Some (vector_features sample_vector)) blocking_world =
     (Returns dn, w')" "dec_Action dn = ActionAllow"
proof -
  have ip: "ClientIp (vector_features sample_vector) = ''10.0.0.1''" by (simp add: vector_features_def sample_vector_eq)
  obtain r where r: "Decrement reference_redis no_oob Delivered default_client ''10.0.0.1'' empty_server = ((99, None), r)"
    using sample_decrement by blast
  have "dec_Action (policy no_oob default_config False (Fin (1 / 2))) = ActionAllow"
    unfolding policy_def default_thresholds float32_thresholds by (simp add: f_gt_def)
  with that Evaluate_policy [of reference_redis no_oob Delivered "sample_engine (Fin (1 / 2))" "Some (vector_features sample_vector)" blocking_world 99 None r
      Background "Fin (1 / 2)" "''v1''" None 7] r show ?thesis
    by (simp add: ip blocking_world_def)
qed

theorem anyone_can_unblock_witness:
  "\<exists>d' w''. gateway reference_redis no_oob sample_front (sample_engine (Fin (1 / 2))) sample_http health health Delivered 7
       \<lparr> wr_method = ''DELETE'', wr_path = ''/block/'' @ ''10.9.9.9'', wr_body = [], wr_ngx = sample_ngx \<rparr> empty_dict blocking_world = (200, d', w'') \<and>
     \<not> ip_blocked lru_lookup (w_map w'') ''10.9.9.9''"
proof -
  note vec = sample_hit
  obtain dn w' where ev: "Evaluate reference_redis no_oob Delivered 7 (sample_engine (Fin (1 / 2))) Background (Some (vector_features sample_vector))
      blocking_world = (Returns dn, w')" "dec_Action dn = ActionAllow" by (rule sample_allowed)
  have H: "h_bpf sample_http = lru_bpf True" "h_list sample_http = open_blocklist" by (simp_all add: sample_http_def)
  have F: "cjson (fr_encode sample_front) (fr_decode sample_front) (fr_tonumber sample_front)" "fr_encode sample_front = ref_encode"
    "remote_addr sample_ngx = Some ''10.0.0.1''"
    using ref.cjson_axioms by (simp_all add: sample_front_def sample_ngx_def)
  show ?thesis
  proof (rule anyone_can_unblock [OF sample_wiring H lru_blocklist.ebpf_blocklist_axioms blocking_world_ok _ _ F(1,3)])
    show "plain_vector (hit_vector sample_front sample_ngx empty_dict)" unfolding vec by (rule sample_vector_plain)
    show "length t < 65536" if "fr_encode sample_front (hit_vector sample_front sample_ngx empty_dict) = Some t" for t
      using that sample_line_short by (simp add: vec F(2))
    show "Evaluate reference_redis no_oob Delivered 7 (sample_engine (Fin (1 / 2))) Background
        (Some (vector_features (hit_vector sample_front sample_ngx empty_dict))) blocking_world = (Returns dn, w')"
      unfolding vec by (rule ev(1))
    show "dec_Action dn = ActionAllow" by (rule ev(2))
  qed simp_all
qed


section \<open>The engine and its scorer\<close>

text \<open>
  C22. Back-off with the repository's own scorer. When the scoring call answers what the sidecar computes and its
  models give numbers, every call of the wired engine returns, and a back-off is given exactly with a
  throttle decision: at least one second and at most two minutes, whatever the thresholds are.
\<close>

theorem sidecar_backoff_bounded:
  fixes ctx0 :: ctx
  assumes "server_main B env ping dial loadPinned = Inr (eng, bl)" "dial (MLSidecarAddr (Load env)) = Inr cn"
    and "Invoke cn (WithTimeout ctx0 callDeadline) MLScorer_Score_FullMethodName (Some v) zero_response = fst (servicer_Score P v s)"
    and "\<And>mdl x. decision_function P mdl x \<noteq> Inr NaN"
    and "\<And>session x. session_run P = Some session \<Longrightarrow> session x \<noteq> Inr NaN"
  shows "\<exists>d w'. Evaluate R oob net now eng ctx0 (Some v) w = (Returns d, w') \<and>
     (dec_RetryAfter d = 0) = (dec_Action d \<noteq> ActionThrottle) \<and> 0 \<le> dec_RetryAfter d \<and> dec_RetryAfter d \<le> 120"
proof -
  obtain score ver serr where sc: "Score (e_ml eng) ctx0 (Some v) = Returns (score, ver, serr)"
      "score = (case fst (servicer_Score P v s) of Inl err \<Rightarrow> Fin 0 | Inr resp \<Rightarrow> AnomalyScore resp)"
    unfolding assms(3) [symmetric] using wired_scored [OF assms(1,2)] by metis
  have "unit_score (AnomalyScore resp)" if "fst (servicer_Score P v s) = Inr resp" for resp
    using assms(4,5) that by (rule anomaly_range)
  then have "unit_score score" by (auto simp: sc(2) unit_score_def split: sum.splits)
  then obtain x where x: "score = Fin x" "0 \<le> x" "x \<le> 1" by (rule unit_scoreE)
  obtain remaining err r where dec: "Decrement R oob net (e_redis eng) (GetClientIp (Some v)) (w_redis w) = ((remaining, err), r)"
    by (metis prod.exhaust)
  show ?thesis
    using Evaluate_policy [OF dec sc(1) wired_blocklist [OF assms(1)], of now] trunc_scaled [OF x(2,3)]
    by (simp add: x(1) policy_RetryAfter backoff_scaled [OF x(2,3)] max_def)
qed

definition sidecar_conn :: "('s, 'mdl) sidecar \<Rightarrow> 's \<Rightarrow> string ClientConn" where
  "sidecar_conn P s =
     \<lparr> Invoke = (\<lambda>ctx0 method fv out. case fv of Some v \<Rightarrow> fst (servicer_Score P v s) | None \<Rightarrow> Inl ''no message''), conn_Close = None \<rparr>"

lemma wiring_exists:
  "\<exists>eng bl. server_main (lru_bpf True) Map.empty (\<lambda>a. None) (\<lambda>addr. Inr cn) (\<lambda>p. Inr (MapHandle p)) = Inr (eng, bl)"
  by (simp add: server_main_def redis_New_def ml_New_def ebpf_New_def Let_def)

theorem sidecar_backoff_bounded_witness:
  "\<exists>eng bl d w'. server_main (lru_bpf True) Map.empty (\<lambda>a. None) (\<lambda>addr. Inr (sidecar_conn (sample_sidecar\<lparr> session_run := None \<rparr>) Map.empty))
       (\<lambda>p. Inr (MapHandle p)) = Inr (eng, bl) \<and>
     Evaluate reference_redis no_oob Delivered 7 eng Background (Some quiet_features) sample_world = (Returns d, w') \<and>
     0 \<le> dec_RetryAfter d \<and> dec_RetryAfter d \<le> 120"
proof -
  let ?P = "sample_sidecar\<lparr> session_run := None \<rparr>"
  obtain eng bl where m: "server_main (lru_bpf True) Map.empty (\<lambda>a. None) (\<lambda>addr. Inr (sidecar_conn ?P Map.empty)) (\<lambda>p. Inr (MapHandle p)) = Inr (eng, bl)"
    using wiring_exists by blast
  show ?thesis
    using sidecar_backoff_bounded [OF m refl, of Background quiet_features ?P Map.empty reference_redis no_oob Delivered 7 sample_world]
      m sample_numbers by (auto simp: sidecar_conn_def)
qed

text \<open>
  C23. A sequence model that answers something that is not a number switches scoring off for everyone. The sidecar
  hands it on (\<^verbatim>\<open>np.clip\<close> does not catch it), no threshold is exceeded, so whatever the isolation forest
  found, only an exhausted bucket is blocked, nothing is throttled; and the decision event cannot be
  encoded, so it is not published either.
\<close>

theorem nan_model_disables_scoring:
  fixes ctx0 :: ctx
  assumes "server_main B env ping dial loadPinned = Inr (eng, bl)" "dial (MLSidecarAddr (Load env)) = Inr cn"
    and "Invoke cn (WithTimeout ctx0 callDeadline) MLScorer_Score_FullMethodName (Some v) zero_response =
        fst (servicer_Score P v (score_all P fvs s))"
    and "py_store P stored" "\<And>ip. stored s (seq_key ip) = None"
    and "session_run P = Some session" "\<And>x. session x = Inr NaN" "iso_score P (ClientIp v) v s = Inr a"
    and "Decrement R oob net (e_redis eng) (ClientIp v) (w_redis w) = ((remaining, redisErr), r)"
  shows "\<exists>w' evt. Evaluate R oob net now eng ctx0 (Some v) w =
       (Returns \<lparr> dec_Action = if redisErr = None \<and> remaining < 0 then ActionBlock else ActionAllow, dec_RetryAfter = 0 \<rparr>, w') \<and>
     last (w_tasks w') = TaskDecision evt \<and> PublishDecision K p evt k = k"
proof -
  have "fst (servicer_Score P v (score_all P fvs s)) = Inr \<lparr> AnomalyScore = NaN, ModelVersion = model_version P \<rparr>"
    using py_store.answer_after [OF assms(4,5), of v fvs] assms(6,7,8)
    by (simp add: score_sequence_def combine_NaN)
  then obtain ver serr where sc: "Score (e_ml eng) ctx0 (Some v) = Returns (NaN, ver, serr)"
    using wired_scored [OF assms(1,2), of ctx0 "Some v"] by (auto simp: assms(3))
  have "PublishDecision K p (decision_event now (Some v) NaN d) k = k" for d
    by (simp add: PublishDecision_def Marshal_def decision_json_def decision_event_def)
  then show ?thesis
    using Evaluate_policy [OF _ sc wired_blocklist [OF assms(1)], of R oob net w remaining redisErr r now] assms(9)
    by (simp add: policy_def aftermath_def)
qed

theorem nan_model_disables_scoring_witness:
  "\<exists>eng bl d w' evt. server_main (lru_bpf True) Map.empty (\<lambda>a. None)
       (\<lambda>addr. Inr (sidecar_conn (sample_sidecar\<lparr> session_run := Some (\<lambda>x. Inr NaN) \<rparr>) Map.empty)) (\<lambda>p. Inr (MapHandle p)) = Inr (eng, bl) \<and>
     Evaluate reference_redis no_oob (RequestLost ''timeout'') 7 eng Background (Some quiet_features) sample_world =
       (Returns \<lparr> dec_Action = ActionAllow, dec_RetryAfter = 0 \<rparr>, w') \<and>
     last (w_tasks w') = TaskDecision evt \<and>
     PublishDecision (broker_kafka (\<lambda>w m. False)) (kafka_New [''localhost:9092'']) evt [] = []"
proof -
  let ?P = "sample_sidecar\<lparr> session_run := Some (\<lambda>x. Inr NaN) \<rparr>"
  obtain eng bl where m: "server_main (lru_bpf True) Map.empty (\<lambda>a. None) (\<lambda>addr. Inr (sidecar_conn ?P Map.empty)) (\<lambda>p. Inr (MapHandle p)) = Inr (eng, bl)"
    using wiring_exists by blast
  have P: "?P = map_sidecar (\<lambda>mdl x. Inr (Fin (1 / 4))) (Some (\<lambda>x. Inr NaN))" by (simp add: sample_sidecar_def map_sidecar_def)
  have "py_store ?P (\<lambda>s. s)" unfolding P by (rule pm.py_store_axioms)
  moreover have "\<exists>a. iso_score ?P (ClientIp quiet_features) quiet_features Map.empty = Inr a"
    by (simp add: P iso_score_def iso_load_def map_sidecar_def)
  ultimately show ?thesis
    using nan_model_disables_scoring [OF m refl, of Background quiet_features ?P "[]" Map.empty "\<lambda>s. s" "\<lambda>x. Inr NaN" _ reference_redis no_oob
        "RequestLost ''timeout''" sample_world 0 "Some (TransportFailed ''timeout'')" empty_server 7
        "broker_kafka (\<lambda>w m. False)" "kafka_New [''localhost:9092'']" "[]"] m
    by (auto simp: sidecar_conn_def score_all_def Decrement_def)
qed



section \<open>The engine beside the loader\<close>

text \<open>The engine's \<^verbatim>\<open>ebpf.LoadPinnedMap\<close> on the kernel the loader has left behind.\<close>

definition open_pinned :: "'k kernel \<Rightarrow> 'k \<Rightarrow> string \<Rightarrow> string + map_handle" where
  "open_pinned L k p = (case LoadPinnedMap L p k of Inl err \<Rightarrow> Inl err | Inr i \<Rightarrow> Inr (MapHandle p))"

text \<open>
  C32. Started after the loader, the engine blocks nobody in the kernel. The loader pins its map at \<^verbatim>\<open>/sys/fs/bpf/blocked_ips\<close>, the
  engine looks for \<^verbatim>\<open>/sys/fs/bpf/ratelimiter/blocked_ips\<close>, finds nothing and runs without a map: no step of the process, no
  block decision and no management request ever changes a map, while \<^verbatim>\<open>POST /block\<close> answers 200 for every text it is given.
\<close>

theorem engine_blocks_nobody:
  assumes "bpf_loading L pins existing filter_on" "loader_main L lenv k = (Serving iface m, k')" "pins k pinnedMapPath = None"
    and "LoadCollectionSpec L bpfObjPath = Inr spec" "dom (cs_Maps spec) = {''blocked_ips''}"
    and "server_main B env ping dial (open_pinned L k') = Inr (eng, bl)" "h_list H = bl"
    and "(node_step R oob eng tick K nets mls H)\<^sup>*\<^sup>* n0 n"
  shows "w_map (sy_world (nd_system n)) = w_map (sy_world (nd_system n0)) \<and>
     handleBlock B show_err Inr bl ip mp = (Returns (c_JSON StatusOK (JObj [(''blocked'', JStr ip)])), mp)"
proof -
  have "pinnedMapPath \<noteq> bpfPinPath" by (simp add: pinnedMapPath_def bpfPinPath_def)
  with bpf_loading.start_pins_nothing_else [OF assms(1) loader_main_Serving [OF assms(2)] assms(3-5)]
  have "pins k' pinnedMapPath = None" by blast
  then obtain err where "open_pinned L k' pinnedMapPath = Inl err"
    using bpf_loading.open_unpinned [OF assms(1), of k' pinnedMapPath] by (auto simp: open_pinned_def)
  then have none: "bl_m bl = None" using server_main_Inr(6) [OF assms(6)] by (simp add: ebpf_New_def)
  with noop_run [OF assms(8) server_main_Inr(5) [OF assms(6)]] assms(7) show ?thesis
    by (simp add: handleBlock_def Add_def)
qed

theorem engine_blocks_nobody_witness:
  "\<exists>k' eng bl. loader_main small_kernel Map.empty boot = (Serving ''eth0'' 1, k') \<and>
     server_main (lru_bpf True) Map.empty (\<lambda>a. None) sample_dial (open_pinned small_kernel k') = Inr (eng, bl) \<and>
     handleBlock (lru_bpf True) (\<lambda>e. []) Inr bl ''10.0.0.1'' (new_lru 16 4 4) =
       (Returns (c_JSON StatusOK (JObj [(''blocked'', JStr ''10.0.0.1'')])), new_lru 16 4 4)"
proof -
  obtain k' where k': "loader_main small_kernel Map.empty boot = (Serving ''eth0'' 1, k')" using boot_Serving by blast
  obtain eng bl where m: "server_main (lru_bpf True) Map.empty (\<lambda>a. None) sample_dial (open_pinned small_kernel k') = Inr (eng, bl)"
    by (auto simp: server_main_def redis_New_def Let_def)
  have "map_of (kn_pins boot) pinnedMapPath = None" by (simp add: boot_def)
  moreover have "LoadCollectionSpec small_kernel bpfObjPath = Inr tc_object" "dom (cs_Maps tc_object) = {''blocked_ips''}"
    by (simp_all add: small_kernel_def tc_object_def)
  ultimately show ?thesis
    using engine_blocks_nobody [OF small.bpf_loading_axioms k' _ _ _ m, of tc_object "sample_http\<lparr> h_list := bl \<rparr>" reference_redis no_oob srv_tick
        "broker_kafka (\<lambda>w msg. False)" "{}" "{}" sample_node sample_node "\<lambda>e. []" "''10.0.0.1''" "new_lru 16 4 4"] k' m
    by auto
qed

end
